theory Spec2Isabelle
  imports Complex_Main
begin

section \<open>Data model of primitive.c\<close>

text \<open>
  The C type \<open>double\<close> is modelled by \<open>real\<close> (exact arithmetic) and the C type
  \<open>int\<close> by \<open>int\<close>. A \<open>double[3]\<close> is a triple, a \<open>double[3][3]\<close> a triple of rows.

  What the idealisation leaves out: the rounding of floating-point operations; the
  values infinity and not-a-number, which the C code produces when it divides by zero
  (in the triple search this needs a negative tolerance, in an inverse a lattice with
  determinant zero), where the model has the quotient \<open>0\<close>; and the bounds of the
  type \<open>int\<close>, which the counters and sizes of this file stay far away from.
\<close>

type_synonym vec3 = "real \<times> real \<times> real"
type_synonym mat3 = "vec3 \<times> vec3 \<times> vec3"
type_synonym ivec3 = "int \<times> int \<times> int"
type_synonym imat3 = "ivec3 \<times> ivec3 \<times> ivec3"

text \<open>
  \<open>VecDBL\<close> (\<open>int size; double (*vec)[3]\<close>) is the list of its \<open>size\<close> vectors: the
  field \<open>size\<close> is the length of the list.
\<close>

type_synonym VecDBL = "vec3 list"

definition size_VecDBL :: "VecDBL \<Rightarrow> int" where
  "size_VecDBL v = int (length v)"

text \<open>\<open>Cell\<close>: the lattice, the two parallel arrays and the atom count.\<close>

record Cell =
  size_cell :: int
  lattice :: mat3
  types :: "int list"
  position :: "vec3 list"

text \<open>
  \<open>Primitive\<close>, its fields with the suffix \<open>_prim\<close>: \<open>cell\<close> is a pointer that may
  be \<open>NULL\<close> (\<open>None\<close>); \<open>mapping_table\<close> is the array of \<open>size\<close> entries (empty when
  the pointer is \<open>NULL\<close>).
\<close>

record Primitive =
  cell_prim :: "Cell option"
  mapping_table_prim :: "int list"
  size_prim :: int
  tolerance_prim :: real
  angle_tolerance_prim :: real
  t_mat_prim :: mat3

definition REDUCE_RATE :: real where
  "REDUCE_RATE = 95 / 100"

definition NUM_ATTEMPT :: nat where
  "NUM_ATTEMPT = 20"

text \<open>
  A function of the C file either returns a value, returns \<open>NULL\<close> (or \<open>0\<close>), or
  runs into undefined behaviour by indexing an array out of its bounds.
\<close>

datatype failure = Null | Undefined

subsection \<open>Allocation and the calls that are observed\<close>

text \<open>
  \<open>malloc\<close> may fail at any call. The state carries the outcomes of the allocation
  requests still to come (\<open>True\<close>: the request succeeds; when the list is used up every
  request succeeds), and the trace of the calls the claims speak about, in the order in
  which they are made.
\<close>

datatype event =
    Call_sym_get_pure_translation real
  | Call_get_primitive_lattice_vectors real
  | Call_sym_reduce_pure_translation real
  | Call_prm_free_primitive

record world =
  heap :: "bool list"
  trace :: "event list"

definition malloc :: "world \<Rightarrow> bool \<times> world" where
  "malloc w = (case heap w of [] \<Rightarrow> (True, w) | b # bs \<Rightarrow> (b, w\<lparr>heap := bs\<rparr>))"

definition emit :: "event \<Rightarrow> world \<Rightarrow> world" where
  "emit e w = w\<lparr>trace := trace w @ [e]\<rparr>"

subsection \<open>mathfunc.c\<close>

text \<open>
  Modelled from the spec: \<open>mat_Dabs\<close>, the absolute value of a double (mathfunc.c is
  not among the sources).
\<close>

definition mat_Dabs :: "real \<Rightarrow> real" where
  "mat_Dabs a = \<bar>a\<bar>"

text \<open>
  Modelled from the spec: \<open>mat_Nint\<close>, integer rounding to the nearest integer
  (mathfunc.c is not among the sources; the spec does not say how a tie is broken).
\<close>

definition mat_Nint :: "real \<Rightarrow> int" where
  "mat_Nint a = round a"

text \<open>
  Modelled from the spec: \<open>mat_get_determinant_d3\<close> and \<open>mat_get_determinant_i3\<close>,
  the 3x3 determinant (mathfunc.c is not among the sources).
\<close>

fun mat_get_determinant_d3 :: "mat3 \<Rightarrow> real" where
  "mat_get_determinant_d3 ((a00, a01, a02), (a10, a11, a12), (a20, a21, a22)) =
     a00 * (a11 * a22 - a12 * a21)
     + a01 * (a12 * a20 - a10 * a22)
     + a02 * (a10 * a21 - a11 * a20)"

fun mat_get_determinant_i3 :: "imat3 \<Rightarrow> int" where
  "mat_get_determinant_i3 ((a00, a01, a02), (a10, a11, a12), (a20, a21, a22)) =
     a00 * (a11 * a22 - a12 * a21)
     + a01 * (a12 * a20 - a10 * a22)
     + a02 * (a10 * a21 - a11 * a20)"

text \<open>
  Modelled from the spec: \<open>mat_inverse_matrix_d3\<close>, the 3x3 inverse (mathfunc.c is not
  among the sources). Every call of primitive.c passes the precision \<open>0\<close>, under which
  no determinant is rejected. The model is the inverse only where the determinant is
  not zero: there the C code divides by zero.
\<close>

fun mat_inverse_matrix_d3 :: "mat3 \<Rightarrow> mat3" where
  "mat_inverse_matrix_d3 ((a00, a01, a02), (a10, a11, a12), (a20, a21, a22)) =
     (let det = mat_get_determinant_d3 ((a00, a01, a02), (a10, a11, a12), (a20, a21, a22))
      in (((a11 * a22 - a12 * a21) / det,
           (a21 * a02 - a22 * a01) / det,
           (a01 * a12 - a02 * a11) / det),
          ((a12 * a20 - a10 * a22) / det,
           (a22 * a00 - a20 * a02) / det,
           (a02 * a10 - a00 * a12) / det),
          ((a10 * a21 - a11 * a20) / det,
           (a20 * a01 - a21 * a00) / det,
           (a00 * a11 - a01 * a10) / det)))"

text \<open>
  Modelled from the spec: \<open>mat_multiply_matrix_d3\<close> and
  \<open>mat_multiply_matrix_vector_d3\<close>, the 3x3 product and the product of a matrix with a
  column vector (mathfunc.c is not among the sources).
\<close>

fun mat_multiply_matrix_vector_d3 :: "mat3 \<Rightarrow> vec3 \<Rightarrow> vec3" where
  "mat_multiply_matrix_vector_d3 ((a00, a01, a02), (a10, a11, a12), (a20, a21, a22)) (b0, b1, b2) =
     (a00 * b0 + a01 * b1 + a02 * b2,
      a10 * b0 + a11 * b1 + a12 * b2,
      a20 * b0 + a21 * b1 + a22 * b2)"

fun mat_multiply_matrix_d3 :: "mat3 \<Rightarrow> mat3 \<Rightarrow> mat3" where
  "mat_multiply_matrix_d3 ((a00, a01, a02), (a10, a11, a12), (a20, a21, a22))
       ((b00, b01, b02), (b10, b11, b12), (b20, b21, b22)) =
     ((a00 * b00 + a01 * b10 + a02 * b20,
       a00 * b01 + a01 * b11 + a02 * b21,
       a00 * b02 + a01 * b12 + a02 * b22),
      (a10 * b00 + a11 * b10 + a12 * b20,
       a10 * b01 + a11 * b11 + a12 * b21,
       a10 * b02 + a11 * b12 + a12 * b22),
      (a20 * b00 + a21 * b10 + a22 * b20,
       a20 * b01 + a21 * b11 + a22 * b21,
       a20 * b02 + a21 * b12 + a22 * b22))"

text \<open>
  Modelled from the spec: \<open>mat_cast_matrix_3d_to_3i\<close> rounds every entry to the nearest
  integer, \<open>mat_cast_matrix_3i_to_3d\<close> casts every entry back (mathfunc.c is not among
  the sources).
\<close>

fun mat_cast_matrix_3d_to_3i :: "mat3 \<Rightarrow> imat3" where
  "mat_cast_matrix_3d_to_3i ((a00, a01, a02), (a10, a11, a12), (a20, a21, a22)) =
     ((mat_Nint a00, mat_Nint a01, mat_Nint a02),
      (mat_Nint a10, mat_Nint a11, mat_Nint a12),
      (mat_Nint a20, mat_Nint a21, mat_Nint a22))"

fun mat_cast_matrix_3i_to_3d :: "imat3 \<Rightarrow> mat3" where
  "mat_cast_matrix_3i_to_3d ((a00, a01, a02), (a10, a11, a12), (a20, a21, a22)) =
     ((real_of_int a00, real_of_int a01, real_of_int a02),
      (real_of_int a10, real_of_int a11, real_of_int a12),
      (real_of_int a20, real_of_int a21, real_of_int a22))"

text \<open>
  Modelled from the spec: \<open>mat_Dmod1\<close> folds a coordinate into \<open>[0,1)\<close> by modulo 1,
  snapping at the boundary: a coordinate equal to 1 within the tolerance folds to 0
  (mathfunc.c is not among the sources). The C function takes the coordinate only; its
  tolerance is a constant of mathfunc.c, here the first argument.
\<close>

definition mat_Dmod1 :: "real \<Rightarrow> real \<Rightarrow> real" where
  "mat_Dmod1 prec a =
     (let b = a - real_of_int \<lfloor>a\<rfloor> in if 1 - b \<le> prec then 0 else b)"

text \<open>
  Modelled from the spec: \<open>mat_alloc_VecDBL\<close> allocates a vector list of the given size,
  or returns \<open>NULL\<close> when memory cannot be allocated (mathfunc.c is not among the
  sources). The content of a fresh list is not initialised; the model fills it with
  zero vectors.
\<close>

definition mat_alloc_VecDBL :: "int \<Rightarrow> world \<Rightarrow> (failure + VecDBL) \<times> world" where
  "mat_alloc_VecDBL n w =
     (case malloc w of
        (False, w') \<Rightarrow> (Inl Null, w')
      | (True, w') \<Rightarrow> (Inr (replicate (nat n) (0, 0, 0)), w'))"

text \<open>
  Reading and writing \<open>a[i]\<close> in an array of known extent; an index outside the array
  is undefined behaviour.
\<close>

definition arr_load :: "'a list \<Rightarrow> int \<Rightarrow> failure + 'a" where
  "arr_load a i = (if 0 \<le> i \<and> i < int (length a) then Inr (a ! nat i) else Inl Undefined)"

definition arr_store :: "'a list \<Rightarrow> int \<Rightarrow> 'a \<Rightarrow> failure + 'a list" where
  "arr_store a i x = (if 0 \<le> i \<and> i < int (length a) then Inr (a[nat i := x]) else Inl Undefined)"

section \<open>get_translation_candidates\<close>

text \<open>The first loop: \<open>for (i = 0; i < multi - 1; i++) vectors->vec[i] = pure_trans->vec[i + 1]\<close>.\<close>

function store_translations :: "VecDBL \<Rightarrow> VecDBL \<Rightarrow> int \<Rightarrow> int \<Rightarrow> failure + VecDBL" where
  "store_translations pure_trans vectors multi i =
     (if i < multi - 1 then
        (case arr_load pure_trans (i + 1) of
           Inl e \<Rightarrow> Inl e
         | Inr x \<Rightarrow>
             (case arr_store vectors i x of
                Inl e \<Rightarrow> Inl e
              | Inr vectors' \<Rightarrow> store_translations pure_trans vectors' multi (i + 1)))
      else Inr vectors)"
  by pat_completeness auto
termination
  by (relation "measure (\<lambda>(pure_trans, vectors, multi, i). nat (multi - 1 - i))") auto

declare store_translations.simps [simp del]

text \<open>
  The second loop: row \<open>i + multi - 1\<close> receives, component by component, \<open>1\<close> where
  \<open>i = j\<close> and \<open>0\<close> elsewhere.
\<close>

definition unit_vector :: "int \<Rightarrow> vec3" where
  "unit_vector i = (if i = 0 then 1 else 0, if i = 1 then 1 else 0, if i = 2 then 1 else 0)"

function store_lattice_translations :: "VecDBL \<Rightarrow> int \<Rightarrow> int \<Rightarrow> failure + VecDBL" where
  "store_lattice_translations vectors multi i =
     (if i < 3 then
        (case arr_store vectors (i + multi - 1) (unit_vector i) of
           Inl e \<Rightarrow> Inl e
         | Inr vectors' \<Rightarrow> store_lattice_translations vectors' multi (i + 1))
      else Inr vectors)"
  by pat_completeness auto
termination
  by (relation "measure (\<lambda>(vectors, multi, i). nat (3 - i))") auto

declare store_lattice_translations.simps [simp del]

definition get_translation_candidates :: "VecDBL \<Rightarrow> world \<Rightarrow> (failure + VecDBL) \<times> world" where
  "get_translation_candidates pure_trans w =
     (let multi = size_VecDBL pure_trans in
      case mat_alloc_VecDBL (multi + 2) w of
        (Inl e, w') \<Rightarrow> (Inl e, w')
      | (Inr vectors, w') \<Rightarrow>
          (case store_translations pure_trans vectors multi 0 of
             Inl e \<Rightarrow> (Inl e, w')
           | Inr vectors1 \<Rightarrow> (store_lattice_translations vectors1 multi 0, w')))"


section \<open>get_primitive_lattice_vectors\<close>

text \<open>
  The volume computed in the innermost loop body for the indices \<open>i\<close>, \<open>j\<close>, \<open>k\<close>:
  the three rows of \<open>tmp_lattice\<close> are the candidate vectors multiplied by the lattice
  of the cell. The loop indices are never negative and stay below \<open>size\<close>, the length
  of the list.
\<close>

definition triple_volume :: "VecDBL \<Rightarrow> Cell \<Rightarrow> nat \<Rightarrow> nat \<Rightarrow> nat \<Rightarrow> real" where
  "triple_volume vectors cell i j k =
     mat_Dabs (mat_get_determinant_d3
       (mat_multiply_matrix_vector_d3 (lattice cell) (vectors ! i),
        mat_multiply_matrix_vector_d3 (lattice cell) (vectors ! j),
        mat_multiply_matrix_vector_d3 (lattice cell) (vectors ! k)))"

text \<open>The two nested tests of the innermost loop body: do they reach \<open>goto ret\<close>?\<close>

definition triple_found :: "VecDBL \<Rightarrow> Cell \<Rightarrow> real \<Rightarrow> nat \<Rightarrow> nat \<Rightarrow> nat \<Rightarrow> bool" where
  "triple_found vectors cell symprec i j k =
     (let size_vectors = size_VecDBL vectors;
          initial_volume = mat_Dabs (mat_get_determinant_d3 (lattice cell));
          volume = triple_volume vectors cell i j k
      in if volume > symprec
         then (if mat_Nint (initial_volume / volume) = size_vectors - 2 then True else False)
         else False)"

function search_k :: "VecDBL \<Rightarrow> Cell \<Rightarrow> real \<Rightarrow> nat \<Rightarrow> nat \<Rightarrow> nat \<Rightarrow> (nat \<times> nat \<times> nat) option" where
  "search_k vectors cell symprec i j k =
     (if int k < size_VecDBL vectors then
        (if triple_found vectors cell symprec i j k then Some (i, j, k)
         else search_k vectors cell symprec i j (k + 1))
      else None)"
  by pat_completeness auto
termination
  by (relation "measure (\<lambda>(vectors, cell, symprec, i, j, k). length vectors - k)")
     (auto simp: size_VecDBL_def)

declare search_k.simps [simp del]

function search_j :: "VecDBL \<Rightarrow> Cell \<Rightarrow> real \<Rightarrow> nat \<Rightarrow> nat \<Rightarrow> (nat \<times> nat \<times> nat) option" where
  "search_j vectors cell symprec i j =
     (if int j < size_VecDBL vectors then
        (case search_k vectors cell symprec i j (j + 1) of
           Some t \<Rightarrow> Some t
         | None \<Rightarrow> search_j vectors cell symprec i (j + 1))
      else None)"
  by pat_completeness auto
termination
  by (relation "measure (\<lambda>(vectors, cell, symprec, i, j). length vectors - j)")
     (auto simp: size_VecDBL_def)

declare search_j.simps [simp del]

function search_i :: "VecDBL \<Rightarrow> Cell \<Rightarrow> real \<Rightarrow> nat \<Rightarrow> (nat \<times> nat \<times> nat) option" where
  "search_i vectors cell symprec i =
     (if int i < size_VecDBL vectors then
        (case search_j vectors cell symprec i (i + 1) of
           Some t \<Rightarrow> Some t
         | None \<Rightarrow> search_i vectors cell symprec (i + 1))
      else None)"
  by pat_completeness auto
termination
  by (relation "measure (\<lambda>(vectors, cell, symprec, i). length vectors - i)")
     (auto simp: size_VecDBL_def)

declare search_i.simps [simp del]

text \<open>The loop \<open>relative_lattice[j][i] = min_vectors[i][j]\<close>.\<close>

fun transpose_d3 :: "mat3 \<Rightarrow> mat3" where
  "transpose_d3 ((a00, a01, a02), (a10, a11, a12), (a20, a21, a22)) =
     ((a00, a10, a20), (a01, a11, a21), (a02, a12, a22))"

text \<open>
  The code after the label \<open>ret\<close>: \<open>relative_lattice\<close> as it stands when it is
  multiplied by the lattice of the cell.
\<close>

definition clean_relative_lattice :: "int \<Rightarrow> mat3 \<Rightarrow> mat3" where
  "clean_relative_lattice size_vectors min_vectors =
     (let relative_lattice = transpose_d3 min_vectors;
          inv_mat_dbl = mat_inverse_matrix_d3 relative_lattice;
          inv_mat_int = mat_cast_matrix_3d_to_3i inv_mat_dbl
      in if \<bar>mat_get_determinant_i3 inv_mat_int\<bar> = size_vectors - 2
         then mat_inverse_matrix_d3 (mat_cast_matrix_3i_to_3d inv_mat_int)
         else relative_lattice)"

text \<open>The return value \<open>0\<close> is \<open>None\<close>; the return value \<open>1\<close> comes with \<open>prim_lattice\<close>.\<close>

definition get_primitive_lattice_vectors :: "VecDBL \<Rightarrow> Cell \<Rightarrow> real \<Rightarrow> mat3 option" where
  "get_primitive_lattice_vectors vectors cell symprec =
     (case search_i vectors cell symprec 0 of
        None \<Rightarrow> None
      | Some (i, j, k) \<Rightarrow>
          Some (mat_multiply_matrix_d3 (lattice cell)
                  (clean_relative_lattice (size_VecDBL vectors)
                     (vectors ! i, vectors ! j, vectors ! k))))"

section \<open>The collaborators\<close>

text \<open>
  The functions of symmetry.c, delaunay.c and cell.c that primitive.c calls are
  parameters of the model. A \<open>NULL\<close> or \<open>0\<close> result is \<open>None\<close>. \<open>cel_trim_cell\<close>
  writes the mapping table it is handed, so it takes the table and returns it with
  its result. \<open>Dmod1_prec\<close> is the tolerance of \<open>mat_Dmod1\<close>.
\<close>

record collab =
  sym_get_pure_translation :: "Cell \<Rightarrow> real \<Rightarrow> VecDBL option"
  sym_reduce_pure_translation :: "Cell \<Rightarrow> VecDBL \<Rightarrow> real \<Rightarrow> real \<Rightarrow> VecDBL option"
  del_delaunay_reduce :: "mat3 \<Rightarrow> real \<Rightarrow> mat3 option"
  cel_trim_cell :: "int list \<Rightarrow> mat3 \<Rightarrow> Cell \<Rightarrow> real \<Rightarrow> int list \<times> Cell option"
  Dmod1_prec :: real

text \<open>
  Modelled from the spec: \<open>cel_alloc_cell\<close> allocates a cell with the given atom count,
  or returns \<open>NULL\<close> when memory cannot be allocated (cell.c is not among the sources).
  The content of a fresh cell is not initialised; the model fills it with zeros.
\<close>

definition cel_alloc_cell :: "int \<Rightarrow> world \<Rightarrow> (failure + Cell) \<times> world" where
  "cel_alloc_cell n w =
     (case malloc w of
        (False, w') \<Rightarrow> (Inl Null, w')
      | (True, w') \<Rightarrow>
          (Inr \<lparr>size_cell = n,
                lattice = ((0, 0, 0), (0, 0, 0), (0, 0, 0)),
                types = replicate (nat n) 0,
                position = replicate (nat n) (0, 0, 0)\<rparr>, w'))"

section \<open>get_cell_with_smallest_lattice\<close>

fun Dmod1_vector :: "real \<Rightarrow> vec3 \<Rightarrow> vec3" where
  "Dmod1_vector prec (x0, x1, x2) = (mat_Dmod1 prec x0, mat_Dmod1 prec x1, mat_Dmod1 prec x2)"

text \<open>The loop over the atoms; the inner loop over \<open>j\<close> is \<open>Dmod1_vector\<close>.\<close>

function smallest_cell_atoms :: "collab \<Rightarrow> mat3 \<Rightarrow> Cell \<Rightarrow> Cell \<Rightarrow> int \<Rightarrow> failure + Cell" where
  "smallest_cell_atoms env trans_mat cell smallest_cell i =
     (if i < size_cell cell then
        (case arr_load (types cell) i of
           Inl e \<Rightarrow> Inl e
         | Inr t \<Rightarrow>
         (case arr_store (types smallest_cell) i t of
           Inl e \<Rightarrow> Inl e
         | Inr types' \<Rightarrow>
         (case arr_load (position cell) i of
           Inl e \<Rightarrow> Inl e
         | Inr p \<Rightarrow>
         (case arr_store (position smallest_cell) i
                 (Dmod1_vector (Dmod1_prec env) (mat_multiply_matrix_vector_d3 trans_mat p)) of
           Inl e \<Rightarrow> Inl e
         | Inr position' \<Rightarrow>
             smallest_cell_atoms env trans_mat cell
               (smallest_cell\<lparr>types := types', position := position'\<rparr>) (i + 1)))))
      else Inr smallest_cell)"
  by pat_completeness auto
termination
  by (relation "measure (\<lambda>(env, trans_mat, cell, smallest_cell, i). nat (size_cell cell - i))")
     auto

declare smallest_cell_atoms.simps [simp del]

definition get_cell_with_smallest_lattice ::
  "collab \<Rightarrow> Cell \<Rightarrow> real \<Rightarrow> world \<Rightarrow> (failure + Cell) \<times> world" where
  "get_cell_with_smallest_lattice env cell symprec w =
     (case del_delaunay_reduce env (lattice cell) symprec of
        None \<Rightarrow> (Inl Null, w)
      | Some min_lat \<Rightarrow>
          (let inv_lat = mat_inverse_matrix_d3 min_lat;
               trans_mat = mat_multiply_matrix_d3 inv_lat (lattice cell)
           in case cel_alloc_cell (size_cell cell) w of
                (Inl e, w') \<Rightarrow> (Inl e, w')
              | (Inr smallest_cell, w') \<Rightarrow>
                  (smallest_cell_atoms env trans_mat cell
                     (smallest_cell\<lparr>lattice := min_lat\<rparr>) 0, w')))"

section \<open>get_primitive_lattice_vectors_iterative\<close>

text \<open>The two copy loops: \<open>for (i = 0; i < n; i++) dst->vec[i] = src->vec[i]\<close>.\<close>

function copy_vectors :: "VecDBL \<Rightarrow> VecDBL \<Rightarrow> int \<Rightarrow> int \<Rightarrow> failure + VecDBL" where
  "copy_vectors dst src n i =
     (if i < n then
        (case arr_load src i of
           Inl e \<Rightarrow> Inl e
         | Inr x \<Rightarrow>
             (case arr_store dst i x of
                Inl e \<Rightarrow> Inl e
              | Inr dst' \<Rightarrow> copy_vectors dst' src n (i + 1)))
      else Inr dst)"
  by pat_completeness auto
termination
  by (relation "measure (\<lambda>(dst, src, n, i). nat (n - i))") auto

declare copy_vectors.simps [simp del]

text \<open>
  The loop over \<open>attempt\<close>, with the loop variables \<open>attempt\<close>, \<open>tolerance\<close> and
  \<open>pure_trans_reduced\<close>. The result \<open>Inl Null\<close> is the return value \<open>0\<close>; a found
  lattice comes with the return value \<open>multi\<close>. The calls of
  \<open>get_primitive_lattice_vectors\<close> and \<open>sym_reduce_pure_translation\<close> are recorded in
  the trace with the tolerance they are given.
\<close>

function iterative_attempts ::
  "collab \<Rightarrow> Cell \<Rightarrow> real \<Rightarrow> nat \<Rightarrow> real \<Rightarrow> VecDBL \<Rightarrow> world \<Rightarrow> (failure + mat3 \<times> int) \<times> world" where
  "iterative_attempts env cell angle_tolerance attempt tolerance pure_trans_reduced w =
     (if attempt < NUM_ATTEMPT then
        (let multi = size_VecDBL pure_trans_reduced in
         case get_translation_candidates pure_trans_reduced w of
           (Inl e, w1) \<Rightarrow> (Inl e, w1)
         | (Inr vectors, w1) \<Rightarrow>
             (let w2 = emit (Call_get_primitive_lattice_vectors tolerance) w1 in
              case get_primitive_lattice_vectors vectors cell tolerance of
                Some prim_lattice \<Rightarrow> (Inr (prim_lattice, multi), w2)
              | None \<Rightarrow>
                  (case mat_alloc_VecDBL multi w2 of
                     (Inl e, w3) \<Rightarrow> (Inl e, w3)
                   | (Inr tmp_vec, w3) \<Rightarrow>
                       (case copy_vectors tmp_vec pure_trans_reduced multi 0 of
                          Inl e \<Rightarrow> (Inl e, w3)
                        | Inr tmp_vec' \<Rightarrow>
                            (let w4 = emit (Call_sym_reduce_pure_translation tolerance) w3 in
                             case sym_reduce_pure_translation env cell tmp_vec' tolerance
                                    angle_tolerance of
                               None \<Rightarrow> (Inl Null, w4)
                             | Some reduced \<Rightarrow>
                                 iterative_attempts env cell angle_tolerance (attempt + 1)
                                   (tolerance * REDUCE_RATE) reduced w4)))))
      else (Inl Null, w))"
  by pat_completeness auto
termination
  by (relation "measure (\<lambda>(env, cell, angle_tolerance, attempt, tolerance, pure_trans_reduced, w).
                  NUM_ATTEMPT - attempt)") auto

declare iterative_attempts.simps [simp del]

definition get_primitive_lattice_vectors_iterative ::
  "collab \<Rightarrow> Cell \<Rightarrow> VecDBL \<Rightarrow> real \<Rightarrow> real \<Rightarrow> world \<Rightarrow> (failure + mat3 \<times> int) \<times> world" where
  "get_primitive_lattice_vectors_iterative env cell pure_trans symprec angle_tolerance w =
     (let tolerance = symprec in
      case mat_alloc_VecDBL (size_VecDBL pure_trans) w of
        (Inl e, w') \<Rightarrow> (Inl e, w')
      | (Inr pure_trans_reduced, w') \<Rightarrow>
          (case copy_vectors pure_trans_reduced pure_trans (size_VecDBL pure_trans) 0 of
             Inl e \<Rightarrow> (Inl e, w')
           | Inr pure_trans_reduced' \<Rightarrow>
               iterative_attempts env cell angle_tolerance 0 tolerance pure_trans_reduced' w'))"

section \<open>get_primitive_cell\<close>

text \<open>
  The mapping table is written through the pointer by \<open>cel_trim_cell\<close>, also when no
  cell comes back, so the table is returned next to the result.
\<close>

definition get_primitive_cell ::
  "collab \<Rightarrow> int list \<Rightarrow> Cell \<Rightarrow> VecDBL \<Rightarrow> real \<Rightarrow> real \<Rightarrow> world
     \<Rightarrow> (int list \<times> (failure + Cell)) \<times> world" where
  "get_primitive_cell env mapping_table cell pure_trans symprec angle_tolerance w =
     (case get_primitive_lattice_vectors_iterative env cell pure_trans symprec angle_tolerance w of
        (Inl e, w') \<Rightarrow> ((mapping_table, Inl e), w')
      | (Inr (prim_lat, multi), w') \<Rightarrow>
          (if multi = 0 then ((mapping_table, Inl Null), w')
           else
             (case del_delaunay_reduce env prim_lat symprec of
                None \<Rightarrow> ((mapping_table, Inl Null), w')
              | Some smallest_lat \<Rightarrow>
                  (case cel_trim_cell env mapping_table smallest_lat cell symprec of
                     (mapping_table', None) \<Rightarrow> ((mapping_table', Inl Null), w')
                   | (mapping_table', Some primitive_cell) \<Rightarrow>
                       ((mapping_table', Inr primitive_cell), w')))))"

section \<open>prm_alloc_primitive and prm_free_primitive\<close>

definition prm_alloc_primitive :: "int \<Rightarrow> world \<Rightarrow> (failure + Primitive) \<times> world" where
  "prm_alloc_primitive size_arg w =
     (case malloc w of
        (False, w1) \<Rightarrow> (Inl Null, w1)
      | (True, w1) \<Rightarrow>
          (case malloc w1 of
             (False, w2) \<Rightarrow> (Inl Null, w2)
           | (True, w2) \<Rightarrow>
               (let primitive =
                      \<lparr>cell_prim = None,
                       mapping_table_prim = [],
                       size_prim = size_arg,
                       tolerance_prim = 0,
                       angle_tolerance_prim = - 1,
                       t_mat_prim = ((0, 0, 0), (0, 0, 0), (0, 0, 0))\<rparr>
                in if size_arg > 0 then
                     (case malloc w2 of
                        (False, w3) \<Rightarrow> (Inl Null, w3)
                      | (True, w3) \<Rightarrow>
                          (Inr (primitive\<lparr>mapping_table_prim := replicate (nat size_arg) (- 1)\<rparr>),
                           w3))
                   else (Inr primitive, w2))))"

text \<open>
  \<open>prm_free_primitive\<close> releases the record and what it owns. The memory itself is not
  part of the model; the call is recorded in the trace.
\<close>

definition prm_free_primitive :: "Primitive \<Rightarrow> world \<Rightarrow> world" where
  "prm_free_primitive primitive w = emit Call_prm_free_primitive w"

section \<open>get_primitive and prm_get_primitive\<close>

text \<open>The loop \<open>for (i = 0; i < cell->size; i++) primitive->mapping_table[i] = i\<close>.\<close>

function store_identity :: "int list \<Rightarrow> int \<Rightarrow> int \<Rightarrow> failure + int list" where
  "store_identity mapping_table n i =
     (if i < n then
        (case arr_store mapping_table i i of
           Inl e \<Rightarrow> Inl e
         | Inr mapping_table' \<Rightarrow> store_identity mapping_table' n (i + 1))
      else Inr mapping_table)"
  by pat_completeness auto
termination
  by (relation "measure (\<lambda>(mapping_table, n, i). nat (n - i))") auto

declare store_identity.simps [simp del]

text \<open>The code after the label \<open>found\<close>; \<open>primitive->cell\<close> is the cell \<open>c\<close>.\<close>

definition found :: "Cell \<Rightarrow> real \<Rightarrow> real \<Rightarrow> Primitive \<Rightarrow> Cell \<Rightarrow> Primitive" where
  "found cell tolerance angle_tolerance primitive c =
     (let inv_lat = mat_inverse_matrix_d3 (lattice cell)
      in primitive
           \<lparr>cell_prim := Some c,
            tolerance_prim := tolerance,
            angle_tolerance_prim := angle_tolerance,
            t_mat_prim := mat_multiply_matrix_d3 (lattice c) inv_lat\<rparr>)"

text \<open>
  The loop over \<open>attempt\<close>, with the loop variables \<open>attempt\<close> and \<open>tolerance\<close> and the
  record \<open>primitive\<close>, whose mapping table a failed attempt may have written. Every call
  of \<open>sym_get_pure_translation\<close> is recorded in the trace with its tolerance. Leaving
  the loop after the last attempt frees the record and returns \<open>NULL\<close>.
\<close>

function get_primitive_attempts ::
  "collab \<Rightarrow> Cell \<Rightarrow> real \<Rightarrow> Primitive \<Rightarrow> nat \<Rightarrow> real \<Rightarrow> world \<Rightarrow> (failure + Primitive) \<times> world" where
  "get_primitive_attempts env cell angle_tolerance primitive attempt tolerance w =
     (if attempt < NUM_ATTEMPT then
        (let w1 = emit (Call_sym_get_pure_translation tolerance) w in
         case sym_get_pure_translation env cell tolerance of
           None \<Rightarrow>
             get_primitive_attempts env cell angle_tolerance primitive (attempt + 1)
               (tolerance * REDUCE_RATE) w1
         | Some pure_trans \<Rightarrow>
             (if size_VecDBL pure_trans = 1 then
                (case get_cell_with_smallest_lattice env cell tolerance w1 of
                   (Inr c, w2) \<Rightarrow>
                     (case store_identity (mapping_table_prim primitive) (size_cell cell) 0 of
                        Inl e \<Rightarrow> (Inl e, w2)
                      | Inr mapping_table' \<Rightarrow>
                          (Inr (found cell tolerance angle_tolerance
                                  (primitive\<lparr>mapping_table_prim := mapping_table'\<rparr>) c), w2))
                 | (Inl Undefined, w2) \<Rightarrow> (Inl Undefined, w2)
                 | (Inl Null, w2) \<Rightarrow>
                     get_primitive_attempts env cell angle_tolerance
                       (primitive\<lparr>cell_prim := None\<rparr>) (attempt + 1)
                       (tolerance * REDUCE_RATE) w2)
              else
                (case get_primitive_cell env (mapping_table_prim primitive) cell pure_trans
                        tolerance angle_tolerance w1 of
                   ((mapping_table', Inr c), w2) \<Rightarrow>
                     (Inr (found cell tolerance angle_tolerance
                             (primitive\<lparr>mapping_table_prim := mapping_table'\<rparr>) c), w2)
                 | ((mapping_table', Inl Undefined), w2) \<Rightarrow> (Inl Undefined, w2)
                 | ((mapping_table', Inl Null), w2) \<Rightarrow>
                     get_primitive_attempts env cell angle_tolerance
                       (primitive\<lparr>mapping_table_prim := mapping_table', cell_prim := None\<rparr>)
                       (attempt + 1) (tolerance * REDUCE_RATE) w2)))
      else (Inl Null, prm_free_primitive primitive w))"
  by pat_completeness auto
termination
  by (relation "measure (\<lambda>(env, cell, angle_tolerance, primitive, attempt, tolerance, w).
                  NUM_ATTEMPT - attempt)") auto

declare get_primitive_attempts.simps [simp del]

definition get_primitive ::
  "collab \<Rightarrow> Cell \<Rightarrow> real \<Rightarrow> real \<Rightarrow> world \<Rightarrow> (failure + Primitive) \<times> world" where
  "get_primitive env cell symprec angle_tolerance w =
     (case prm_alloc_primitive (size_cell cell) w of
        (Inl e, w') \<Rightarrow> (Inl e, w')
      | (Inr primitive, w') \<Rightarrow>
          (let tolerance = symprec
           in get_primitive_attempts env cell angle_tolerance primitive 0 tolerance w'))"

definition prm_get_primitive ::
  "collab \<Rightarrow> Cell \<Rightarrow> real \<Rightarrow> real \<Rightarrow> world \<Rightarrow> (failure + Primitive) \<times> world" where
  "prm_get_primitive env cell symprec angle_tolerance w =
     get_primitive env cell symprec angle_tolerance w"

section \<open>Reading the trace\<close>

text \<open>
  The tolerances of the recorded calls of \<open>sym_get_pure_translation\<close>, of
  \<open>get_primitive_lattice_vectors\<close> and of \<open>sym_reduce_pure_translation\<close>, in the order of
  the calls; and the lists \<open>t, t * REDUCE_RATE, t * REDUCE_RATE^2, ...\<close>.
\<close>

fun pure_translation_tolerances :: "event list \<Rightarrow> real list" where
  "pure_translation_tolerances [] = []"
| "pure_translation_tolerances (Call_sym_get_pure_translation t # es) =
     t # pure_translation_tolerances es"
| "pure_translation_tolerances (e # es) = pure_translation_tolerances es"

fun stage_b_tolerances :: "event list \<Rightarrow> real list" where
  "stage_b_tolerances [] = []"
| "stage_b_tolerances (Call_get_primitive_lattice_vectors t # es) = t # stage_b_tolerances es"
| "stage_b_tolerances (e # es) = stage_b_tolerances es"

fun reduce_tolerances :: "event list \<Rightarrow> real list" where
  "reduce_tolerances [] = []"
| "reduce_tolerances (Call_sym_reduce_pure_translation t # es) = t # reduce_tolerances es"
| "reduce_tolerances (e # es) = reduce_tolerances es"

definition geometric :: "real \<Rightarrow> real list \<Rightarrow> bool" where
  "geometric t xs \<longleftrightarrow> xs = map (\<lambda>k. t * REDUCE_RATE ^ k) [0..<length xs]"

section \<open>What a successful attempt returns\<close>

text \<open>
  The record returned through the label \<open>found\<close> by an attempt at the tolerance \<open>tol\<close>:
  its tolerances, its transform, and its cell and mapping table, which come from
  \<open>get_cell_with_smallest_lattice\<close> and the identity loop when the translation list has
  one member, from \<open>get_primitive_cell\<close> otherwise.
\<close>

definition accepted_at :: "collab \<Rightarrow> Cell \<Rightarrow> real \<Rightarrow> real \<Rightarrow> Primitive \<Rightarrow> bool" where
  "accepted_at env cell angle_tolerance tol p \<longleftrightarrow>
     tolerance_prim p = tol \<and> angle_tolerance_prim p = angle_tolerance \<and>
     (\<exists>c pure_trans.
        cell_prim p = Some c \<and>
        t_mat_prim p = mat_multiply_matrix_d3 (lattice c) (mat_inverse_matrix_d3 (lattice cell)) \<and>
        sym_get_pure_translation env cell tol = Some pure_trans \<and>
        (if size_VecDBL pure_trans = 1
         then size_cell c = size_cell cell \<and>
              (\<exists>wa wb. get_cell_with_smallest_lattice env cell tol wa = (Inr c, wb)) \<and>
              (\<forall>i. 0 \<le> i \<and> i < size_cell cell \<longrightarrow> mapping_table_prim p ! nat i = i)
         else (\<exists>mt wa wb. get_primitive_cell env mt cell pure_trans tol angle_tolerance wa
                              = ((mapping_table_prim p, Inr c), wb))))"

section \<open>Well-formed inputs\<close>

text \<open>
  The two arrays of the cell have \<open>size\<close> entries, the translation lists that the
  collaborators return are not empty, and \<open>cel_trim_cell\<close> leaves the extent of the
  mapping table alone (in C it cannot change it).
\<close>

definition well_formed_inputs :: "collab \<Rightarrow> Cell \<Rightarrow> bool" where
  "well_formed_inputs env cell \<longleftrightarrow>
     size_cell cell = int (length (types cell)) \<and>
     size_cell cell = int (length (position cell)) \<and>
     (\<forall>tol pure_trans. sym_get_pure_translation env cell tol = Some pure_trans \<longrightarrow>
        pure_trans \<noteq> []) \<and>
     (\<forall>v tol angle_tol reduced.
        sym_reduce_pure_translation env cell v tol angle_tol = Some reduced \<longrightarrow> reduced \<noteq> []) \<and>
     (\<forall>mapping_table lat tol.
        length (fst (cel_trim_cell env mapping_table lat cell tol)) = length mapping_table)"

section \<open>The enumeration order of the triple search, in the words of the spec\<close>

text \<open>
  Every unordered triple \<open>i < j < k\<close> of indices below \<open>n\<close>, in index order, and the
  lexicographic order on index triples.
\<close>

definition index_triples :: "nat \<Rightarrow> (nat \<times> nat \<times> nat) list" where
  "index_triples n = [(i, j, k). i \<leftarrow> [0..<n], j \<leftarrow> [i + 1..<n], k \<leftarrow> [j + 1..<n]]"

fun triple_less :: "nat \<times> nat \<times> nat \<Rightarrow> nat \<times> nat \<times> nat \<Rightarrow> bool" where
  "triple_less (i, j, k) (i', j', k') = (i < i' \<or> (i = i' \<and> (j < j' \<or> (j = j' \<and> k < k'))))"

text \<open>
  The triple search as the spec words it, for a pure-translation group of the given
  order: skip a triple whose volume is at most the tolerance, take the first one whose
  rounded volume ratio is the group order minus two.
\<close>

definition stage_b_spec ::
  "int \<Rightarrow> VecDBL \<Rightarrow> Cell \<Rightarrow> real \<Rightarrow> (nat \<times> nat \<times> nat) option" where
  "stage_b_spec group_order vectors cell symprec =
     List.find
       (\<lambda>(i, j, k).
          symprec < triple_volume vectors cell i j k \<and>
          mat_Nint (mat_Dabs (mat_get_determinant_d3 (lattice cell))
                    / triple_volume vectors cell i j k) = group_order - 2)
       (index_triples (length vectors))"

section \<open>Concrete inputs\<close>

text \<open>
  A body-centred cubic cell: two atoms of one type in the unit cube, related by the
  translation \<open>(1/2, 1/2, 1/2)\<close>; its pure-translation group has order two.
\<close>

definition bcc_cell :: Cell where
  "bcc_cell =
     \<lparr>size_cell = 2,
      lattice = ((1, 0, 0), (0, 1, 0), (0, 0, 1)),
      types = [1, 1],
      position = [(0, 0, 0), (1 / 2, 1 / 2, 1 / 2)]\<rparr>"

definition bcc_pure_trans :: VecDBL where
  "bcc_pure_trans = [(0, 0, 0), (1 / 2, 1 / 2, 1 / 2)]"

definition bcc_vectors :: VecDBL where
  "bcc_vectors = [(1 / 2, 1 / 2, 1 / 2), (1, 0, 0), (0, 1, 0), (0, 0, 1)]"

definition world0 :: world where
  "world0 = \<lparr>heap = [], trace = []\<rparr>"

text \<open>
  Four translations with coordinates in fifths, after the identity: a translation list
  of size five.
\<close>

definition fifths_pure_trans :: VecDBL where
  "fifths_pure_trans =
     [(0, 0, 0), (0, 1 / 5, 2 / 5), (0, 3 / 5, 1 / 5), (1 / 5, 3 / 5, 0), (4 / 5, 0, 1 / 5)]"

definition fifths_vectors :: VecDBL where
  "fifths_vectors =
     [(0, 1 / 5, 2 / 5), (0, 3 / 5, 1 / 5), (1 / 5, 3 / 5, 0), (4 / 5, 0, 1 / 5),
      (1, 0, 0), (0, 1, 0), (0, 0, 1)]"

text \<open>
  The body-centred cell with a perturbed atom: the translation is \<open>(51/100, 1/2, 1/2)\<close>.
\<close>

definition noisy_cell :: Cell where
  "noisy_cell =
     \<lparr>size_cell = 2,
      lattice = ((1, 0, 0), (0, 1, 0), (0, 0, 1)),
      types = [1, 1],
      position = [(0, 0, 0), (51 / 100, 1 / 2, 1 / 2)]\<rparr>"

definition noisy_pure_trans :: VecDBL where
  "noisy_pure_trans = [(0, 0, 0), (51 / 100, 1 / 2, 1 / 2)]"

definition noisy_vectors :: VecDBL where
  "noisy_vectors = [(51 / 100, 1 / 2, 1 / 2), (1, 0, 0), (0, 1, 0), (0, 0, 1)]"

text \<open>
  Collaborators for the concrete runs: no pure translation is found unless the
  tolerance is below \<open>1/100000\<close>, then the identity alone; the refinement returns the
  identity alone; the Delaunay reduction returns the lattice it is given; trimming
  fails. A cell of one atom whose coordinates lie outside \<open>[0,1)\<close>.
\<close>

definition retry_env :: collab where
  "retry_env =
     \<lparr>sym_get_pure_translation = (\<lambda>cell tol. if tol < 1 / 100000 then Some [(0, 0, 0)] else None),
      sym_reduce_pure_translation = (\<lambda>cell v tol angle_tol. Some [(0, 0, 0)]),
      del_delaunay_reduce = (\<lambda>lat tol. Some lat),
      cel_trim_cell = (\<lambda>mapping_table lat cell tol. (mapping_table, None)),
      Dmod1_prec = 1 / 100000\<rparr>"

definition shifted_cell :: Cell where
  "shifted_cell =
     \<lparr>size_cell = 1,
      lattice = ((1, 0, 0), (0, 1, 0), (0, 0, 1)),
      types = [7],
      position = [(- (1 / 4), 5 / 4, 1)]\<rparr>"

text \<open>
  A translation list whose second member is not a translation of the body-centred
  cell: the triple search fails on it.
\<close>

definition stray_pure_trans :: VecDBL where
  "stray_pure_trans = [(0, 0, 0), (3 / 10, 0, 0)]"

text \<open>
  What \<open>get_primitive\<close> returns for the one-atom cell with these collaborators and the
  tolerance \<open>1/100000\<close>, and collaborators that never find anything.
\<close>

definition retry_result :: Primitive where
  "retry_result =
     \<lparr>cell_prim = Some \<lparr>size_cell = 1, lattice = ((1, 0, 0), (0, 1, 0), (0, 0, 1)),
                          types = [7], position = [(3 / 4, 1 / 4, 0)]\<rparr>,
      mapping_table_prim = [0],
      size_prim = 1,
      tolerance_prim = 19 / 2000000,
      angle_tolerance_prim = - 1,
      t_mat_prim = ((1, 0, 0), (0, 1, 0), (0, 0, 1))\<rparr>"

definition retry_world :: world where
  "retry_world =
     \<lparr>heap = [],
      trace = [Call_sym_get_pure_translation (1 / 100000),
               Call_sym_get_pure_translation (19 / 2000000)]\<rparr>"

definition never_env :: collab where
  "never_env =
     \<lparr>sym_get_pure_translation = (\<lambda>cell tol. None),
      sym_reduce_pure_translation = (\<lambda>cell v tol angle_tol. None),
      del_delaunay_reduce = (\<lambda>lat tol. None),
      cel_trim_cell = (\<lambda>mapping_table lat cell tol. (mapping_table, None)),
      Dmod1_prec = 1 / 100000\<rparr>"

text \<open>
  Candidates built from two translations that are off their places: the rounded inverse
  of the first triple does not have the determinant three.
\<close>

definition coarse_vectors :: VecDBL where
  "coarse_vectors = [(0, 1 / 2, 0), (0, 0, 7 / 10), (1, 0, 0), (0, 1, 0), (0, 0, 1)]"

text \<open>
  A cell of two atoms in a sheared lattice, with collaborators whose Delaunay reduction
  returns the unit cube: the change of basis adds the first coordinate to the second.
  The third coordinate of the first atom is below 1 by less than the tolerance of
  \<open>mat_Dmod1\<close>. \<open>skew_result\<close> is the cell that \<open>get_cell_with_smallest_lattice\<close>
  returns for it.
\<close>

definition skew_env :: collab where
  "skew_env =
     \<lparr>sym_get_pure_translation = (\<lambda>cell tol. Some [(0, 0, 0)]),
      sym_reduce_pure_translation = (\<lambda>cell v tol angle_tol. None),
      del_delaunay_reduce = (\<lambda>lat tol. Some ((1, 0, 0), (0, 1, 0), (0, 0, 1))),
      cel_trim_cell = (\<lambda>mapping_table lat cell tol. (mapping_table, None)),
      Dmod1_prec = 1 / 100000\<rparr>"

definition skew_cell :: Cell where
  "skew_cell =
     \<lparr>size_cell = 2,
      lattice = ((1, 0, 0), (1, 1, 0), (0, 0, 1)),
      types = [7, 8],
      position = [(3 / 4, 1 / 2, 99999999 / 100000000), (- (1 / 4), 1 / 4, 1 / 3)]\<rparr>"

definition skew_result :: Cell where
  "skew_result =
     \<lparr>size_cell = 2,
      lattice = ((1, 0, 0), (0, 1, 0), (0, 0, 1)),
      types = [7, 8],
      position = [(3 / 4, 1 / 4, 0), (3 / 4, 0, 1 / 3)]\<rparr>"

text \<open>
  Collaborators that find the two translations of the perturbed body-centred cell at
  every tolerance, and whose trimming returns a cell of one atom and writes \<open>0\<close> into
  every entry of the mapping table; what \<open>get_primitive\<close> returns with them for the
  perturbed body-centred cell.
\<close>

definition trim_env :: collab where
  "trim_env =
     \<lparr>sym_get_pure_translation = (\<lambda>cell tol. Some noisy_pure_trans),
      sym_reduce_pure_translation = (\<lambda>cell v tol angle_tol. None),
      del_delaunay_reduce = (\<lambda>lat tol. Some lat),
      cel_trim_cell = (\<lambda>mapping_table lat cell tol.
         (map (\<lambda>x. 0) mapping_table,
          Some \<lparr>size_cell = 1, lattice = lat, types = [1], position = [(0, 0, 0)]\<rparr>)),
      Dmod1_prec = 1 / 100000\<rparr>"

definition trim_result :: Primitive where
  "trim_result =
     \<lparr>cell_prim = Some \<lparr>size_cell = 1, lattice = ((1 / 2, 1, 0), (1 / 2, 0, 1), (1 / 2, 0, 0)),
                          types = [1], position = [(0, 0, 0)]\<rparr>,
      mapping_table_prim = [0, 0],
      size_prim = 2,
      tolerance_prim = 1 / 100000,
      angle_tolerance_prim = - 1,
      t_mat_prim = ((1 / 2, 1, 0), (1 / 2, 0, 1), (1 / 2, 0, 0))\<rparr>"

definition trim_world :: world where
  "trim_world =
     \<lparr>heap = [],
      trace = [Call_sym_get_pure_translation (1 / 100000),
               Call_get_primitive_lattice_vectors (1 / 100000)]\<rparr>"

section \<open>The candidate list\<close>

lemma store_translations_eq:
  "i \<le> length pt - 1 \<Longrightarrow> 1 \<le> length pt \<Longrightarrow> length vs = length pt + 2 \<Longrightarrow>
   store_translations pt vs (int (length pt)) (int i)
     = Inr (take i vs @ drop (i + 1) pt @ drop (length pt - 1) vs)"
proof (induction "length pt - 1 - i" arbitrary: i vs)
  case 0
  then have "i = length pt - 1" by simp
  with 0 show ?case by (simp add: store_translations.simps[of pt vs] )
next
  case (Suc k)
  then have lt: "i < length pt - 1" by simp
  have ih: "store_translations pt (vs[i := pt ! (i + 1)]) (int (length pt)) (int (i + 1))
     = Inr (take (i + 1) (vs[i := pt ! (i + 1)]) @ drop (i + 1 + 1) pt @ drop (length pt - 1) (vs[i := pt ! (i + 1)]))"
    using Suc lt by (intro Suc.hyps(1)) auto
  have a: "take (i + 1) (vs[i := pt ! (i + 1)]) = take i vs @ [pt ! (i + 1)]"
    using lt Suc.prems by (simp add: take_Suc_conv_app_nth)
  have b: "drop (length pt - 1) (vs[i := pt ! (i + 1)]) = drop (length pt - 1) vs"
    using lt by simp
  have c: "drop (i + 1) pt = pt ! (i + 1) # drop (i + 1 + 1) pt"
    using lt by (simp add: Cons_nth_drop_Suc)
  show ?case
    using lt Suc.prems ih a b c
    by (simp add: store_translations.simps[of pt vs] arr_load_def arr_store_def nat_add_distrib add.commute)
qed


lemma store_lattice_translations_eq:
  assumes "1 \<le> length pt" and "length rest = 3"
  shows "store_lattice_translations (tl pt @ rest) (int (length pt)) 0
           = Inr (tl pt @ [unit_vector 0, unit_vector 1, unit_vector 2])"
proof -
  obtain a b c where rest: "rest = [a, b, c]"
    using assms(2) by (cases rest; simp; cases "tl rest"; simp; cases "tl (tl rest)"; simp)
  define m where "m = length (tl pt)"
  have len: "int (length pt) = int m + 1" using assms(1) by (simp add: m_def)
  have s0: "arr_store (tl pt @ [a, b, c]) (0 + (int m + 1) - 1) (unit_vector 0)
             = Inr (tl pt @ [unit_vector 0, b, c])"
    by (simp add: arr_store_def m_def list_update_append)
  have s1: "arr_store (tl pt @ [unit_vector 0, b, c]) (0 + 1 + (int m + 1) - 1) (unit_vector (0 + 1))
             = Inr (tl pt @ [unit_vector 0, unit_vector 1, c])"
    by (simp add: arr_store_def m_def list_update_append nat_add_distrib)
  have s2: "arr_store (tl pt @ [unit_vector 0, unit_vector 1, c]) (0 + 1 + 1 + (int m + 1) - 1)
              (unit_vector (0 + 1 + 1))
             = Inr (tl pt @ [unit_vector 0, unit_vector 1, unit_vector 2])"
    by (simp add: arr_store_def m_def list_update_append nat_add_distrib)
  show ?thesis
    unfolding rest len
    apply (subst store_lattice_translations.simps)
    apply (simp only: s0 sum.case)
    apply (subst store_lattice_translations.simps)
    apply (simp only: s1 sum.case)
    apply (subst store_lattice_translations.simps)
    apply (simp only: s2 sum.case)
    apply (subst store_lattice_translations.simps)
    apply simp
    done
qed

lemma get_translation_candidates_eq:
  assumes "1 \<le> length pure_trans"
  shows "get_translation_candidates pure_trans w =
           (if fst (malloc w)
            then Inr (tl pure_trans @ [unit_vector 0, unit_vector 1, unit_vector 2])
            else Inl Null, snd (malloc w))"
proof (cases "malloc w")
  case (Pair ok w')
  show ?thesis
  proof (cases ok)
    case False
    with Pair show ?thesis
      by (simp add: get_translation_candidates_def mat_alloc_VecDBL_def)
  next
    case True
    let ?vs = "replicate (nat (int (length pure_trans) + 2)) (0, 0, 0) :: VecDBL"
    have lv: "length ?vs = length pure_trans + 2" by (simp add: nat_add_distrib)
    have st: "store_translations pure_trans ?vs (int (length pure_trans)) (int 0)
                = Inr (take 0 ?vs @ drop (0 + 1) pure_trans @ drop (length pure_trans - 1) ?vs)"
      using assms lv by (intro store_translations_eq) auto
    have l3: "length (drop (length pure_trans - 1) ?vs) = 3"
      using assms by (simp add: nat_add_distrib)
    have "store_translations pure_trans ?vs (int (length pure_trans)) 0
                = Inr (tl pure_trans @ drop (length pure_trans - 1) ?vs)"
      using st by (simp add: drop_Suc)
    with Pair True store_lattice_translations_eq[OF assms l3] show ?thesis
      by (simp add: get_translation_candidates_def mat_alloc_VecDBL_def size_VecDBL_def)
  qed
qed

lemma get_translation_candidates_empty:
  "get_translation_candidates [] w = (if fst (malloc w) then Inl Undefined else Inl Null, snd (malloc w))"
  by (cases "malloc w")
     (auto simp: get_translation_candidates_def mat_alloc_VecDBL_def size_VecDBL_def
        store_translations.simps[of "[]"] store_lattice_translations.simps[of _ 0 0] arr_store_def)

lemma unit_vectors: "unit_vector 0 = (1, 0, 0)" "unit_vector 1 = (0, 1, 0)" "unit_vector 2 = (0, 0, 1)"
  by (simp_all add: unit_vector_def)

section \<open>The triple search\<close>

lemma find_append_case:
  "List.find P (xs @ ys) = (case List.find P xs of Some x \<Rightarrow> Some x | None \<Rightarrow> List.find P ys)"
  by (induction xs) auto

lemma search_k_find:
  "search_k vectors cell symprec i j k =
     List.find (\<lambda>(i, j, k). triple_found vectors cell symprec i j k)
       (map (\<lambda>k. (i, j, k)) [k..<length vectors])"
proof (induction "length vectors - k" arbitrary: k)
  case 0
  then show ?case by (simp add: search_k.simps[of _ _ _ _ _ k] size_VecDBL_def)
next
  case (Suc m)
  then have lt: "k < length vectors" by simp
  have ih: "search_k vectors cell symprec i j (k + 1) =
     List.find (\<lambda>(i, j, k). triple_found vectors cell symprec i j k)
       (map (\<lambda>k. (i, j, k)) [k + 1..<length vectors])"
    using Suc by (intro Suc.hyps(1)) simp
  show ?case
    using lt ih by (simp add: search_k.simps[of _ _ _ _ _ k] size_VecDBL_def upt_conv_Cons)
qed


lemma search_j_find:
  "search_j vectors cell symprec i j =
     List.find (\<lambda>(i, j, k). triple_found vectors cell symprec i j k)
       (concat (map (\<lambda>j. map (\<lambda>k. (i, j, k)) [j + 1..<length vectors]) [j..<length vectors]))"
proof (induction "length vectors - j" arbitrary: j)
  case 0
  then have "\<not> int j < size_VecDBL vectors" by (simp add: size_VecDBL_def)
  moreover have "length vectors \<le> j" using 0 by simp
  ultimately show ?case by (subst search_j.simps) simp
next
  case (Suc m)
  then have lt: "j < length vectors" by simp
  have ih: "search_j vectors cell symprec i (j + 1) =
     List.find (\<lambda>(i, j, k). triple_found vectors cell symprec i j k)
       (concat (map (\<lambda>j. map (\<lambda>k. (i, j, k)) [j + 1..<length vectors]) [j + 1..<length vectors]))"
    using Suc by (intro Suc.hyps(1)) simp
  have up: "[j..<length vectors] = j # [j + 1..<length vectors]"
    using lt by (simp add: upt_conv_Cons)
  have "search_j vectors cell symprec i j =
     (case search_k vectors cell symprec i j (j + 1) of
           Some t \<Rightarrow> Some t
         | None \<Rightarrow> search_j vectors cell symprec i (j + 1))"
    using lt by (subst search_j.simps) (simp add: size_VecDBL_def)
  also have "\<dots> = List.find (\<lambda>(i, j, k). triple_found vectors cell symprec i j k)
       (map (\<lambda>k. (i, j, k)) [j + 1..<length vectors]
         @ concat (map (\<lambda>j. map (\<lambda>k. (i, j, k)) [j + 1..<length vectors]) [j + 1..<length vectors]))"
    unfolding find_append_case ih search_k_find ..
  finally show ?case unfolding up by simp
qed

lemma search_i_find:
  "search_i vectors cell symprec i =
     List.find (\<lambda>(i, j, k). triple_found vectors cell symprec i j k)
       (concat (map (\<lambda>i. concat (map (\<lambda>j. map (\<lambda>k. (i, j, k)) [j + 1..<length vectors])
           [i + 1..<length vectors])) [i..<length vectors]))"
proof (induction "length vectors - i" arbitrary: i)
  case 0
  then have "\<not> int i < size_VecDBL vectors" by (simp add: size_VecDBL_def)
  moreover have "length vectors \<le> i" using 0 by simp
  ultimately show ?case by (subst search_i.simps) simp
next
  case (Suc m)
  then have lt: "i < length vectors" by simp
  have ih: "search_i vectors cell symprec (i + 1) =
     List.find (\<lambda>(i, j, k). triple_found vectors cell symprec i j k)
       (concat (map (\<lambda>i. concat (map (\<lambda>j. map (\<lambda>k. (i, j, k)) [j + 1..<length vectors])
           [i + 1..<length vectors])) [i + 1..<length vectors]))"
    using Suc by (intro Suc.hyps(1)) simp
  have up: "[i..<length vectors] = i # [i + 1..<length vectors]"
    using lt by (simp add: upt_conv_Cons)
  have "search_i vectors cell symprec i =
     (case search_j vectors cell symprec i (i + 1) of
           Some t \<Rightarrow> Some t
         | None \<Rightarrow> search_i vectors cell symprec (i + 1))"
    using lt by (subst search_i.simps) (simp add: size_VecDBL_def)
  also have "\<dots> = List.find (\<lambda>(i, j, k). triple_found vectors cell symprec i j k)
       (concat (map (\<lambda>j. map (\<lambda>k. (i, j, k)) [j + 1..<length vectors]) [i + 1..<length vectors])
         @ concat (map (\<lambda>i. concat (map (\<lambda>j. map (\<lambda>k. (i, j, k)) [j + 1..<length vectors])
           [i + 1..<length vectors])) [i + 1..<length vectors]))"
    unfolding find_append_case ih search_j_find ..
  finally show ?case unfolding up by simp
qed

lemma search_i_index_triples:
  "search_i vectors cell symprec 0 =
     List.find (\<lambda>(i, j, k). triple_found vectors cell symprec i j k)
       (index_triples (length vectors))"
  by (simp add: search_i_find index_triples_def)

lemma in_index_triples:
  "(i, j, k) \<in> set (index_triples n) \<longleftrightarrow> i < j \<and> j < k \<and> k < n"
  unfolding index_triples_def by (simp add: image_iff) arith

lemma sorted_row_k: "sorted_wrt triple_less (map (\<lambda>k. (i, j, k)) [a..<n])"
  by (simp add: sorted_wrt_map sorted_wrt_iff_nth_less)

lemma sorted_row_j:
  "sorted_wrt triple_less (concat (map (\<lambda>j. map (\<lambda>k. (i, j, k)) [Suc j..<n]) [a..<n]))"
proof (induction "n - a" arbitrary: a)
  case 0
  then show ?case by simp
next
  case (Suc m)
  then have lt: "a < n" by simp
  have ih: "sorted_wrt triple_less (concat (map (\<lambda>j. map (\<lambda>k. (i, j, k)) [Suc j..<n]) [Suc a..<n]))"
    using Suc by (intro Suc.hyps(1)) simp
  have cross: "\<forall>x \<in> set (map (\<lambda>k. (i, a, k)) [Suc a..<n]).
                 \<forall>y \<in> set (concat (map (\<lambda>j. map (\<lambda>k. (i, j, k)) [Suc j..<n]) [Suc a..<n])).
                   triple_less x y"
    by auto
  have "[a..<n] = a # [Suc a..<n]" using lt by (simp add: upt_conv_Cons)
  then show ?case
    using ih cross sorted_row_k[of i a "Suc a" n] by (simp add: sorted_wrt_append)
qed

lemma sorted_index_triples_from:
  "sorted_wrt triple_less (concat (map (\<lambda>i. concat (map (\<lambda>j. map (\<lambda>k. (i, j, k)) [Suc j..<n])
           [Suc i..<n])) [a..<n]))"
proof (induction "n - a" arbitrary: a)
  case 0
  then show ?case by simp
next
  case (Suc m)
  then have lt: "a < n" by simp
  have ih: "sorted_wrt triple_less (concat (map (\<lambda>i. concat (map (\<lambda>j. map (\<lambda>k. (i, j, k)) [Suc j..<n])
           [Suc i..<n])) [Suc a..<n]))"
    using Suc by (intro Suc.hyps(1)) simp
  have cross: "\<forall>x \<in> set (concat (map (\<lambda>j. map (\<lambda>k. (a, j, k)) [Suc j..<n]) [Suc a..<n])).
                 \<forall>y \<in> set (concat (map (\<lambda>i. concat (map (\<lambda>j. map (\<lambda>k. (i, j, k)) [Suc j..<n])
                      [Suc i..<n])) [Suc a..<n])).
                   triple_less x y"
    by auto
  have "[a..<n] = a # [Suc a..<n]" using lt by (simp add: upt_conv_Cons)
  then show ?case
    using ih cross sorted_row_j[of a n "Suc a"] by (simp add: sorted_wrt_append)
qed

lemma sorted_index_triples: "sorted_wrt triple_less (index_triples n)"
  using sorted_index_triples_from[of n 0] by (simp add: index_triples_def)

lemma triple_less_irrefl: "\<not> triple_less t t"
  by (cases t) auto

lemma triple_less_asym: "triple_less s t \<Longrightarrow> \<not> triple_less t s"
  by (cases s; cases t) auto

lemma find_sorted_first:
  assumes "sorted_wrt triple_less xs" and "List.find P xs = Some t"
    and "s \<in> set xs" and "triple_less s t"
  shows "\<not> P s"
proof -
  from assms(2) obtain a where a: "a < length xs" "t = xs ! a" "\<forall>b<a. \<not> P (xs ! b)"
    by (auto simp: find_Some_iff)
  from assms(3) obtain b where b: "b < length xs" "s = xs ! b"
    by (auto simp: in_set_conv_nth)
  have "b < a"
  proof (rule ccontr)
    assume "\<not> b < a"
    then consider "a = b" | "a < b" by linarith
    then show False
    proof cases
      case 1
      with a b assms(4) show False by (simp add: triple_less_irrefl)
    next
      case 2
      then have "triple_less t s"
        using assms(1) a b by (simp add: sorted_wrt_iff_nth_less)
      with assms(4) show False by (simp add: triple_less_asym)
    qed
  qed
  with a b show ?thesis by simp
qed

lemma triple_found_iff:
  "triple_found vectors cell symprec i j k \<longleftrightarrow>
     symprec < triple_volume vectors cell i j k \<and>
     mat_Nint (mat_Dabs (mat_get_determinant_d3 (lattice cell))
               / triple_volume vectors cell i j k) = size_VecDBL vectors - 2"
  by (simp add: triple_found_def Let_def)

lemma search_i_Some:
  assumes "search_i vectors cell symprec 0 = Some (i, j, k)"
  shows "i < j \<and> j < k \<and> k < length vectors \<and> triple_found vectors cell symprec i j k"
proof -
  have f: "List.find (\<lambda>(i, j, k). triple_found vectors cell symprec i j k)
             (index_triples (length vectors)) = Some (i, j, k)"
    using assms by (simp add: search_i_index_triples)
  then obtain a where a: "a < length (index_triples (length vectors))"
      "(i, j, k) = index_triples (length vectors) ! a"
      "(\<lambda>(i, j, k). triple_found vectors cell symprec i j k) (index_triples (length vectors) ! a)"
    by (auto simp: find_Some_iff)
  have "(i, j, k) \<in> set (index_triples (length vectors))"
    using a(1) unfolding a(2) by (rule nth_mem)
  then have b: "i < j \<and> j < k \<and> k < length vectors" by (simp add: in_index_triples)
  have "triple_found vectors cell symprec i j k"
    using a(3) unfolding a(2)[symmetric] by simp
  with b show ?thesis by simp
qed

lemma search_i_first:
  assumes "search_i vectors cell symprec 0 = Some (i, j, k)"
    and "i' < j'" "j' < k'" "k' < length vectors"
    and "triple_less (i', j', k') (i, j, k)"
  shows "\<not> triple_found vectors cell symprec i' j' k'"
proof -
  have f: "List.find (\<lambda>(i, j, k). triple_found vectors cell symprec i j k)
             (index_triples (length vectors)) = Some (i, j, k)"
    using assms(1) by (simp add: search_i_index_triples)
  have m: "(i', j', k') \<in> set (index_triples (length vectors))"
    using assms by (simp add: in_index_triples)
  show ?thesis
    using find_sorted_first[OF sorted_index_triples f m assms(5)] by simp
qed

lemma search_i_None:
  "search_i vectors cell symprec 0 = None \<longleftrightarrow>
     \<not> (\<exists>i j k. i < j \<and> j < k \<and> k < length vectors \<and> triple_found vectors cell symprec i j k)"
proof -
  have "search_i vectors cell symprec 0 = None \<longleftrightarrow>
     \<not> (\<exists>t. t \<in> set (index_triples (length vectors))
          \<and> (\<lambda>(i, j, k). triple_found vectors cell symprec i j k) t)"
    by (simp add: search_i_index_triples find_None_iff)
  also have "\<dots> \<longleftrightarrow> \<not> (\<exists>i j k. (i, j, k) \<in> set (index_triples (length vectors))
          \<and> triple_found vectors cell symprec i j k)"
    by auto
  finally show ?thesis by (simp add: in_index_triples)
qed

lemma get_primitive_lattice_vectors_None:
  "get_primitive_lattice_vectors vectors cell symprec = None \<longleftrightarrow>
     search_i vectors cell symprec 0 = None"
proof (cases "search_i vectors cell symprec 0")
  case None
  then show ?thesis by (simp add: get_primitive_lattice_vectors_def)
next
  case (Some t)
  obtain i j k where "t = (i, j, k)" by (cases t) auto
  with Some show ?thesis by (simp add: get_primitive_lattice_vectors_def)
qed

lemma index_triples_4: "index_triples 4 = [(0, 1, 2), (0, 1, 3), (0, 2, 3), (1, 2, 3)]"
  by code_simp

lemma bcc_volume_012: "triple_volume bcc_vectors bcc_cell 0 (Suc 0) 2 = 1 / 2"
  by (simp add: triple_volume_def bcc_cell_def bcc_vectors_def mat_Dabs_def)

lemma bcc_initial_volume: "mat_Dabs (mat_get_determinant_d3 (lattice bcc_cell)) = 1"
  by (simp add: bcc_cell_def mat_Dabs_def)

lemma bcc_found_012: "triple_found bcc_vectors bcc_cell (1 / 100000) 0 (Suc 0) 2"
  unfolding triple_found_iff bcc_volume_012 bcc_initial_volume
  by (simp add: mat_Nint_def bcc_vectors_def size_VecDBL_def)

lemma bcc_search: "search_i bcc_vectors bcc_cell (1 / 100000) 0 = Some (0, Suc 0, 2)"
proof -
  have l: "size_VecDBL bcc_vectors = 4" by (simp add: bcc_vectors_def size_VecDBL_def)
  have l4: "length bcc_vectors = 4" by (simp add: bcc_vectors_def)
  have "search_i bcc_vectors bcc_cell (1 / 100000) 0 =
          List.find (\<lambda>(i, j, k). triple_found bcc_vectors bcc_cell (1 / 100000) i j k)
            (index_triples 4)"
    using search_i_index_triples[of bcc_vectors bcc_cell "1 / 100000"] unfolding l4 .
  then show ?thesis
    unfolding index_triples_4 by (simp add: bcc_found_012)
qed

lemma bcc_volumes:
  "triple_volume bcc_vectors bcc_cell 0 (Suc 0) 3 = 1 / 2"
  "triple_volume bcc_vectors bcc_cell 0 2 3 = 1 / 2"
  "triple_volume bcc_vectors bcc_cell (Suc 0) 2 3 = 1"
  by (simp_all add: triple_volume_def bcc_cell_def bcc_vectors_def mat_Dabs_def)

lemma bcc_spec: "stage_b_spec 2 bcc_vectors bcc_cell (1 / 100000) = None"
proof -
  have l: "length bcc_vectors = 4" by (simp add: bcc_vectors_def)
  show ?thesis
    unfolding stage_b_spec_def l index_triples_4
    by (simp add: bcc_volume_012 bcc_volumes bcc_initial_volume mat_Nint_def)
qed

lemma iterative_attempts_found:
  assumes "1 \<le> length pure_trans" "attempt < NUM_ATTEMPT" "fst (malloc w)"
    and "get_primitive_lattice_vectors
           (tl pure_trans @ [unit_vector 0, unit_vector 1, unit_vector 2]) cell tol
         = Some prim_lattice"
  shows "iterative_attempts env cell angle_tolerance attempt tol pure_trans w
         = (Inr (prim_lattice, size_VecDBL pure_trans),
            emit (Call_get_primitive_lattice_vectors tol) (snd (malloc w)))"
  using assms get_translation_candidates_eq[OF assms(1), of w]
  by (subst iterative_attempts.simps) (simp add: Let_def)

text \<open>
  C6. For every translation list of size \<open>m \<ge> 1\<close>, the candidate list that
  \<open>get_translation_candidates\<close> builds (when its allocation succeeds) has exactly
  \<open>m - 1 + 3 = m + 2\<close> vectors: the translations at the indices \<open>1\<close> to \<open>m - 1\<close>, followed
  by the three unit lattice vectors \<open>(1,0,0)\<close>, \<open>(0,1,0)\<close>, \<open>(0,0,1)\<close>. It is the list
  that an iteration of \<open>get_primitive_lattice_vectors_iterative\<close> hands to the triple
  search: when the search succeeds on it, the iteration returns what the search found.
\<close>

theorem candidates_are_translations_then_units:
  assumes "1 \<le> size_VecDBL pure_trans"
  shows "get_translation_candidates pure_trans w =
           (if fst (malloc w)
            then Inr (tl pure_trans @ [(1, 0, 0), (0, 1, 0), (0, 0, 1)])
            else Inl Null, snd (malloc w))
         \<and> size_VecDBL (tl pure_trans @ [(1, 0, 0), (0, 1, 0), (0, 0, 1)])
             = size_VecDBL pure_trans - 1 + 3
         \<and> length (tl pure_trans) = length pure_trans - 1
         \<and> (\<forall>env cell angle_tolerance attempt tol prim_lattice.
               attempt < NUM_ATTEMPT \<and> fst (malloc w) \<and>
               get_primitive_lattice_vectors
                 (tl pure_trans @ [(1, 0, 0), (0, 1, 0), (0, 0, 1)]) cell tol = Some prim_lattice
               \<longrightarrow> iterative_attempts env cell angle_tolerance attempt tol pure_trans w
                     = (Inr (prim_lattice, size_VecDBL pure_trans),
                        emit (Call_get_primitive_lattice_vectors tol) (snd (malloc w))))"
proof -
  have l: "1 \<le> length pure_trans" using assms by (simp add: size_VecDBL_def)
  have a: "get_translation_candidates pure_trans w =
           (if fst (malloc w)
            then Inr (tl pure_trans @ [(1, 0, 0), (0, 1, 0), (0, 0, 1)])
            else Inl Null, snd (malloc w))"
    using get_translation_candidates_eq[OF l, of w] by (simp add: unit_vectors)
  have b: "size_VecDBL (tl pure_trans @ [(1, 0, 0), (0, 1, 0), (0, 0, 1)])
             = size_VecDBL pure_trans - 1 + 3"
    using l by (simp add: size_VecDBL_def)
  have c: "length (tl pure_trans) = length pure_trans - 1" by simp
  have d: "\<forall>env cell angle_tolerance attempt tol prim_lattice.
               attempt < NUM_ATTEMPT \<and> fst (malloc w) \<and>
               get_primitive_lattice_vectors
                 (tl pure_trans @ [(1, 0, 0), (0, 1, 0), (0, 0, 1)]) cell tol = Some prim_lattice
               \<longrightarrow> iterative_attempts env cell angle_tolerance attempt tol pure_trans w
                     = (Inr (prim_lattice, size_VecDBL pure_trans),
                        emit (Call_get_primitive_lattice_vectors tol) (snd (malloc w)))"
    using iterative_attempts_found[OF l] by (simp add: unit_vectors)
  show ?thesis
    apply (intro conjI)
       apply (fact a)
      apply (fact b)
     apply (fact c)
    apply (fact d)
    done
qed

theorem candidates_are_translations_then_units_witness:
  "get_translation_candidates bcc_pure_trans world0 = (Inr bcc_vectors, world0)
   \<and> size_VecDBL bcc_vectors = 4
   \<and> (\<exists>prim_lattice. iterative_attempts retry_env bcc_cell (- 1) 0 (1 / 100000) bcc_pure_trans world0
        = (Inr (prim_lattice, 2), emit (Call_get_primitive_lattice_vectors (1 / 100000)) world0))"
proof -
  have h: "1 \<le> size_VecDBL bcc_pure_trans"
    by (simp add: size_VecDBL_def bcc_pure_trans_def)
  note t = candidates_are_translations_then_units[OF h, of world0]
  have a: "get_translation_candidates bcc_pure_trans world0 = (Inr bcc_vectors, world0)
   \<and> size_VecDBL bcc_vectors = 4"
    using t by (simp add: malloc_def world0_def bcc_pure_trans_def bcc_vectors_def size_VecDBL_def)
  obtain prim_lattice where
    g: "get_primitive_lattice_vectors bcc_vectors bcc_cell (1 / 100000) = Some prim_lattice"
    using bcc_search by (auto simp: get_primitive_lattice_vectors_def)
  have v: "tl bcc_pure_trans @ [(1, 0, 0), (0, 1, 0), (0, 0, 1)] = bcc_vectors"
    by (simp add: bcc_pure_trans_def bcc_vectors_def)
  have m: "fst (malloc world0)" "snd (malloc world0) = world0"
    by (simp_all add: malloc_def world0_def)
  have n: "0 < NUM_ATTEMPT" by (simp add: NUM_ATTEMPT_def)
  have s: "size_VecDBL bcc_pure_trans = 2" by (simp add: bcc_pure_trans_def size_VecDBL_def)
  have "iterative_attempts retry_env bcc_cell (- 1) 0 (1 / 100000) bcc_pure_trans world0
        = (Inr (prim_lattice, 2), emit (Call_get_primitive_lattice_vectors (1 / 100000)) world0)"
    using t[THEN conjunct2, THEN conjunct2, THEN conjunct2, rule_format,
            of 0 bcc_cell "1 / 100000" prim_lattice retry_env "- 1"] n m g
    unfolding v s by simp
  with a show ?thesis by blast
qed

text \<open>
  C1 (as the code has it). In \<open>get_primitive_lattice_vectors\<close> the index triples
  \<open>i < j < k\<close> are tried in lexicographic index order; a triple whose volume \<open>V\<close> (the
  three candidate vectors multiplied by the lattice of the cell) is at most the tolerance
  is skipped; the first remaining triple for which \<open>mat_Nint (V0 / V)\<close> equals the number
  of candidate vectors minus two is taken, where \<open>V0\<close> is the absolute determinant of the
  lattice; when no triple qualifies the function returns \<open>0\<close>. For a candidate list built
  from a translation list, the number of candidates minus two is the size of the
  translation list, the order of the pure-translation group itself.
\<close>

theorem triple_search_first_match:
  "search_i vectors cell symprec 0 =
     List.find (\<lambda>(i, j, k). triple_found vectors cell symprec i j k)
       (index_triples (length vectors))
   \<and> (\<forall>i j k. triple_found vectors cell symprec i j k \<longleftrightarrow>
         symprec < triple_volume vectors cell i j k \<and>
         mat_Nint (mat_Dabs (mat_get_determinant_d3 (lattice cell))
                   / triple_volume vectors cell i j k) = size_VecDBL vectors - 2)
   \<and> (\<forall>i j k. search_i vectors cell symprec 0 = Some (i, j, k) \<longrightarrow>
         i < j \<and> j < k \<and> k < length vectors \<and> triple_found vectors cell symprec i j k \<and>
         (\<forall>i' j' k'. i' < j' \<and> j' < k' \<and> k' < length vectors \<and>
              triple_less (i', j', k') (i, j, k) \<longrightarrow>
              \<not> triple_found vectors cell symprec i' j' k'))
   \<and> (search_i vectors cell symprec 0 = None \<longleftrightarrow>
        \<not> (\<exists>i j k. i < j \<and> j < k \<and> k < length vectors \<and>
               triple_found vectors cell symprec i j k))
   \<and> (get_primitive_lattice_vectors vectors cell symprec = None \<longleftrightarrow>
        search_i vectors cell symprec 0 = None)
   \<and> (\<forall>pure_trans w. 1 \<le> size_VecDBL pure_trans \<and>
          fst (get_translation_candidates pure_trans w) = Inr vectors \<longrightarrow>
          size_VecDBL vectors - 2 = size_VecDBL pure_trans)"
proof (intro conjI allI impI)
  show "search_i vectors cell symprec 0 =
     List.find (\<lambda>(i, j, k). triple_found vectors cell symprec i j k)
       (index_triples (length vectors))"
    by (rule search_i_index_triples)
next
  fix i j k
  show "triple_found vectors cell symprec i j k \<longleftrightarrow>
         symprec < triple_volume vectors cell i j k \<and>
         mat_Nint (mat_Dabs (mat_get_determinant_d3 (lattice cell))
                   / triple_volume vectors cell i j k) = size_VecDBL vectors - 2"
    by (rule triple_found_iff)
next
  fix i j k assume "search_i vectors cell symprec 0 = Some (i, j, k)"
  from search_i_Some[OF this]
  show "i < j" "j < k" "k < length vectors" "triple_found vectors cell symprec i j k"
    by simp_all
next
  fix i j k i' j' k'
  assume "search_i vectors cell symprec 0 = Some (i, j, k)"
    and "i' < j' \<and> j' < k' \<and> k' < length vectors \<and> triple_less (i', j', k') (i, j, k)"
  then show "\<not> triple_found vectors cell symprec i' j' k'"
    using search_i_first[of vectors cell symprec i j k i' j' k'] by blast
next
  show "search_i vectors cell symprec 0 = None \<longleftrightarrow>
        \<not> (\<exists>i j k. i < j \<and> j < k \<and> k < length vectors \<and>
               triple_found vectors cell symprec i j k)"
    by (rule search_i_None)
next
  show "get_primitive_lattice_vectors vectors cell symprec = None \<longleftrightarrow>
        search_i vectors cell symprec 0 = None"
    by (rule get_primitive_lattice_vectors_None)
next
  fix pure_trans w
  assume a: "1 \<le> size_VecDBL pure_trans \<and>
          fst (get_translation_candidates pure_trans w) = Inr vectors"
  then have l: "1 \<le> length pure_trans" by (simp add: size_VecDBL_def)
  from a have "vectors = tl pure_trans @ [unit_vector 0, unit_vector 1, unit_vector 2]"
    by (simp add: get_translation_candidates_eq[OF l] split: if_splits)
  then show "size_VecDBL vectors - 2 = size_VecDBL pure_trans"
    using l by (simp add: size_VecDBL_def)
qed

theorem triple_search_first_match_witness:
  "search_i bcc_vectors bcc_cell (1 / 100000) 0 = Some (0, Suc 0, 2)
   \<and> triple_found bcc_vectors bcc_cell (1 / 100000) 0 (Suc 0) 2
   \<and> size_VecDBL bcc_vectors - 2 = size_VecDBL bcc_pure_trans"
proof -
  have c: "1 \<le> size_VecDBL bcc_pure_trans \<and>
        fst (get_translation_candidates bcc_pure_trans world0) = Inr bcc_vectors"
    using get_translation_candidates_eq[of bcc_pure_trans world0]
    by (simp add: malloc_def world0_def bcc_pure_trans_def bcc_vectors_def unit_vectors
          size_VecDBL_def)
  show ?thesis
    using triple_search_first_match[of bcc_vectors bcc_cell "1 / 100000"] bcc_search c
    by blast
qed

text \<open>
  C1 as it is worded compares the rounded volume ratio with the group order minus two.
  For the body-centred cell (group order two) the code takes the first triple, whose
  ratio rounds to two; the search worded with the group order minus two finds nothing.
\<close>

theorem triple_search_group_order_counterexample:
  "get_translation_candidates bcc_pure_trans world0 = (Inr bcc_vectors, world0)
   \<and> size_VecDBL bcc_pure_trans = 2
   \<and> search_i bcc_vectors bcc_cell (1 / 100000) 0 = Some (0, Suc 0, 2)
   \<and> mat_Nint (mat_Dabs (mat_get_determinant_d3 (lattice bcc_cell))
               / triple_volume bcc_vectors bcc_cell 0 (Suc 0) 2) = 2
   \<and> stage_b_spec (size_VecDBL bcc_pure_trans) bcc_vectors bcc_cell (1 / 100000) = None
   \<and> get_primitive_lattice_vectors bcc_vectors bcc_cell (1 / 100000) \<noteq> None"
proof -
  have c: "get_translation_candidates bcc_pure_trans world0 = (Inr bcc_vectors, world0)"
    using get_translation_candidates_eq[of bcc_pure_trans world0]
    by (simp add: malloc_def world0_def bcc_pure_trans_def bcc_vectors_def unit_vectors)
  have s: "size_VecDBL bcc_pure_trans = 2" by (simp add: bcc_pure_trans_def size_VecDBL_def)
  have n: "mat_Nint (mat_Dabs (mat_get_determinant_d3 (lattice bcc_cell))
               / triple_volume bcc_vectors bcc_cell 0 (Suc 0) 2) = 2"
    unfolding bcc_volume_012 bcc_initial_volume by (simp add: mat_Nint_def)
  have g: "get_primitive_lattice_vectors bcc_vectors bcc_cell (1 / 100000) \<noteq> None"
    by (simp add: get_primitive_lattice_vectors_None bcc_search)
  show ?thesis using c s n g bcc_search bcc_spec by simp
qed

section \<open>The position of the unit vectors in the search order\<close>

lemma candidates_nth:
  assumes "1 \<le> length pure_trans"
    and "fst (get_translation_candidates pure_trans w) = Inr vectors"
  shows "vectors = tl pure_trans @ [unit_vector 0, unit_vector 1, unit_vector 2]"
  using assms by (simp add: get_translation_candidates_eq split: if_splits)

lemma candidates_ignore_first:
  "get_translation_candidates (x # rest) w = get_translation_candidates (y # rest) w"
  by (simp add: get_translation_candidates_eq)

lemma index_triples_7_prefix:
  "index_triples 7 = (0, 1, 2) # (0, 1, 3) # (0, 1, 4) # drop 3 (index_triples 7)"
  by code_simp

lemma fifths_volumes:
  "triple_volume fifths_vectors bcc_cell 0 (Suc 0) 2 = 1 / 25"
  "triple_volume fifths_vectors bcc_cell 0 (Suc 0) 3 = 4 / 25"
  "triple_volume fifths_vectors bcc_cell 0 (Suc 0) 4 = 1 / 5"
  "triple_volume fifths_vectors bcc_cell 0 2 3 = 1 / 5"
  by (simp_all add: triple_volume_def bcc_cell_def fifths_vectors_def mat_Dabs_def)

lemma fifths_found:
  "\<not> triple_found fifths_vectors bcc_cell (1 / 100000) 0 (Suc 0) 2"
  "\<not> triple_found fifths_vectors bcc_cell (1 / 100000) 0 (Suc 0) 3"
  "triple_found fifths_vectors bcc_cell (1 / 100000) 0 (Suc 0) 4"
  "triple_found fifths_vectors bcc_cell (1 / 100000) 0 2 3"
  unfolding triple_found_iff fifths_volumes bcc_initial_volume
  by (simp_all add: mat_Nint_def round_def fifths_vectors_def size_VecDBL_def)

lemma fifths_search: "search_i fifths_vectors bcc_cell (1 / 100000) 0 = Some (0, Suc 0, 4)"
proof -
  have l7: "length fifths_vectors = 7" by (simp add: fifths_vectors_def)
  have "search_i fifths_vectors bcc_cell (1 / 100000) 0 =
          List.find (\<lambda>(i, j, k). triple_found fifths_vectors bcc_cell (1 / 100000) i j k)
            (index_triples 7)"
    using search_i_index_triples[of fifths_vectors bcc_cell "1 / 100000"] unfolding l7 .
  then show ?thesis
    by (subst (asm) index_triples_7_prefix) (simp add: fifths_found)
qed

text \<open>
  C10 (as the code has it). \<open>get_translation_candidates\<close> leaves out the element at
  index \<open>0\<close> of the translation list by its position, whatever its value, and stores the
  other translations in their order at the indices \<open>0\<close> to \<open>m - 2\<close>, followed by the three
  unit lattice vectors at the indices \<open>m - 1\<close> to \<open>m + 1\<close>. The triple search takes the
  lexicographically first qualifying index triple; so, among the triples with the same
  two leading indices, one whose third vector is a translation is tried before one
  whose third vector is a unit lattice vector.
\<close>

theorem candidates_by_position_and_search_order:
  assumes "1 \<le> size_VecDBL pure_trans"
    and "fst (get_translation_candidates pure_trans w) = Inr vectors"
  shows "length vectors = length pure_trans + 2
    \<and> (\<forall>i. i + 1 < length pure_trans \<longrightarrow> vectors ! i = pure_trans ! (i + 1))
    \<and> vectors ! (length pure_trans - 1) = (1, 0, 0)
    \<and> vectors ! (length pure_trans) = (0, 1, 0)
    \<and> vectors ! (length pure_trans + 1) = (0, 0, 1)
    \<and> (\<forall>x. get_translation_candidates (x # tl pure_trans) w
              = get_translation_candidates pure_trans w)
    \<and> (\<forall>i j k. search_i vectors cell symprec 0 = Some (i, j, k) \<longrightarrow>
         (\<forall>i' j' k'. i' < j' \<and> j' < k' \<and> k' < length vectors \<and>
              triple_less (i', j', k') (i, j, k) \<longrightarrow>
              \<not> triple_found vectors cell symprec i' j' k'))
    \<and> (\<forall>i j k k'. search_i vectors cell symprec 0 = Some (i, j, k) \<and>
            length pure_trans - 1 \<le> k \<and> j < k' \<and> k' < length pure_trans - 1 \<longrightarrow>
            \<not> triple_found vectors cell symprec i j k')"
proof -
  have l: "1 \<le> length pure_trans" using assms(1) by (simp add: size_VecDBL_def)
  have v: "vectors = tl pure_trans @ [unit_vector 0, unit_vector 1, unit_vector 2]"
    using candidates_nth[OF l assms(2)] .
  have lt: "length (tl pure_trans) = length pure_trans - 1" by simp
  have c1: "length vectors = length pure_trans + 2" using l v by simp
  have c2: "\<forall>i. i + 1 < length pure_trans \<longrightarrow> vectors ! i = pure_trans ! (i + 1)"
    using l v by (auto simp: nth_append nth_tl)
  obtain x0 rest where pt: "pure_trans = x0 # rest" using l by (cases pure_trans) auto
  have vr: "vectors = rest @ [unit_vector 0, unit_vector 1, unit_vector 2]"
    using v pt by simp
  have c3: "vectors ! (length pure_trans - 1) = (1, 0, 0)"
    unfolding vr pt by (simp add: nth_append unit_vectors)
  have c4: "vectors ! (length pure_trans) = (0, 1, 0)"
    unfolding vr pt by (simp add: nth_append unit_vectors)
  have c5: "vectors ! (length pure_trans + 1) = (0, 0, 1)"
    unfolding vr pt by (simp add: nth_append unit_vectors)
  have c6: "\<forall>x. get_translation_candidates (x # tl pure_trans) w
              = get_translation_candidates pure_trans w"
    unfolding pt list.sel by (intro allI) (rule candidates_ignore_first)
  have c7: "\<forall>i j k. search_i vectors cell symprec 0 = Some (i, j, k) \<longrightarrow>
         (\<forall>i' j' k'. i' < j' \<and> j' < k' \<and> k' < length vectors \<and>
              triple_less (i', j', k') (i, j, k) \<longrightarrow>
              \<not> triple_found vectors cell symprec i' j' k')"
  proof (intro allI impI)
    fix i j k i' j' k'
    assume s: "search_i vectors cell symprec 0 = Some (i, j, k)"
      and a: "i' < j' \<and> j' < k' \<and> k' < length vectors \<and> triple_less (i', j', k') (i, j, k)"
    show "\<not> triple_found vectors cell symprec i' j' k'"
      using search_i_first[OF s, of i' j' k'] a by simp
  qed
  have c8: "\<forall>i j k k'. search_i vectors cell symprec 0 = Some (i, j, k) \<and>
            length pure_trans - 1 \<le> k \<and> j < k' \<and> k' < length pure_trans - 1 \<longrightarrow>
            \<not> triple_found vectors cell symprec i j k'"
  proof (intro allI impI)
    fix i j k k'
    assume a: "search_i vectors cell symprec 0 = Some (i, j, k) \<and>
            length pure_trans - 1 \<le> k \<and> j < k' \<and> k' < length pure_trans - 1"
    then have s: "search_i vectors cell symprec 0 = Some (i, j, k)" by simp
    have ij: "i < j" using search_i_Some[OF s] by simp
    have "k' < k" using a by linarith
    then have tl: "triple_less (i, j, k') (i, j, k)" by simp
    have "k' < length vectors" using a c1 by linarith
    then show "\<not> triple_found vectors cell symprec i j k'"
      using search_i_first[OF s ij _ _ tl] a by simp
  qed
  show ?thesis
    apply (intro conjI)
           apply (fact c1)
          apply (fact c2)
         apply (fact c3)
        apply (fact c4)
       apply (fact c5)
      apply (fact c6)
     apply (fact c7)
    apply (fact c8)
    done
qed

theorem candidates_by_position_and_search_order_witness:
  "length fifths_vectors = 7
   \<and> fifths_vectors ! 4 = (1, 0, 0)
   \<and> \<not> triple_found fifths_vectors bcc_cell (1 / 100000) 0 (Suc 0) 3"
proof -
  have h1: "1 \<le> size_VecDBL fifths_pure_trans"
    by (simp add: fifths_pure_trans_def size_VecDBL_def)
  have h2: "fst (get_translation_candidates fifths_pure_trans world0) = Inr fifths_vectors"
    using get_translation_candidates_eq[of fifths_pure_trans world0]
    by (simp add: malloc_def world0_def fifths_pure_trans_def fifths_vectors_def unit_vectors)
  have l5: "length fifths_pure_trans = 5" by (simp add: fifths_pure_trans_def)
  note t = candidates_by_position_and_search_order[OF h1 h2, of bcc_cell "1 / 100000"]
  have a: "length fifths_vectors = 7" using t[THEN conjunct1] l5 by simp
  have b: "fifths_vectors ! 4 = (1, 0, 0)"
    using t[THEN conjunct2, THEN conjunct2, THEN conjunct1] l5 by simp
  note t8 = t[THEN conjunct2, THEN conjunct2, THEN conjunct2, THEN conjunct2, THEN conjunct2,
              THEN conjunct2, THEN conjunct2]
  have "search_i fifths_vectors bcc_cell (1 / 100000) 0 = Some (0, Suc 0, 4) \<and>
            length fifths_pure_trans - 1 \<le> 4 \<and> Suc 0 < 3 \<and> 3 < length fifths_pure_trans - 1"
    using fifths_search l5 by simp
  then have c: "\<not> triple_found fifths_vectors bcc_cell (1 / 100000) 0 (Suc 0) 3"
    using t8[rule_format, of 0 "Suc 0" 4 3] by simp
  show ?thesis using a b c by simp
qed

text \<open>
  C10 as it is worded has every triple of translations tried before any triple with a
  unit lattice vector. For a translation list of size five the triple \<open>(0, 1, 4)\<close>, whose
  third vector is the unit vector \<open>(1,0,0)\<close>, is tried before the triple \<open>(0, 2, 3)\<close> of
  translations: here both qualify and the code takes \<open>(0, 1, 4)\<close>.
\<close>

theorem genuine_triple_after_unit_triple_counterexample:
  "get_translation_candidates fifths_pure_trans world0 = (Inr fifths_vectors, world0)
   \<and> length fifths_pure_trans = 5
   \<and> search_i fifths_vectors bcc_cell (1 / 100000) 0 = Some (0, Suc 0, 4)
   \<and> fifths_vectors ! 4 = (1, 0, 0)
   \<and> triple_found fifths_vectors bcc_cell (1 / 100000) 0 2 3
   \<and> fifths_vectors ! 0 = fifths_pure_trans ! 1
   \<and> fifths_vectors ! 2 = fifths_pure_trans ! 3
   \<and> fifths_vectors ! 3 = fifths_pure_trans ! 4"
proof -
  have c: "get_translation_candidates fifths_pure_trans world0 = (Inr fifths_vectors, world0)"
    using get_translation_candidates_eq[of fifths_pure_trans world0]
    by (simp add: malloc_def world0_def fifths_pure_trans_def fifths_vectors_def unit_vectors)
  show ?thesis
    using c fifths_search fifths_found(4)
    by (simp add: fifths_pure_trans_def fifths_vectors_def)
qed

section \<open>Cleaning the relative lattice\<close>

lemma get_primitive_lattice_vectors_Some:
  assumes "search_i vectors cell symprec 0 = Some (i, j, k)"
  shows "get_primitive_lattice_vectors vectors cell symprec =
       Some (mat_multiply_matrix_d3 (lattice cell)
          (let raw = transpose_d3 (vectors ! i, vectors ! j, vectors ! k);
               rounded = mat_cast_matrix_3d_to_3i (mat_inverse_matrix_d3 raw)
           in if \<bar>mat_get_determinant_i3 rounded\<bar> = size_VecDBL vectors - 2
              then mat_inverse_matrix_d3 (mat_cast_matrix_3i_to_3d rounded)
              else raw))"
  using assms by (simp add: get_primitive_lattice_vectors_def clean_relative_lattice_def Let_def)

lemma mat_Nint_nearest: "\<bar>real_of_int (mat_Nint x) - x\<bar> \<le> 1 / 2"
  unfolding mat_Nint_def by (rule of_int_round_abs_le)

lemma noisy_found_012: "triple_found noisy_vectors noisy_cell (1 / 100000) 0 (Suc 0) 2"
  unfolding triple_found_iff
  by (simp add: triple_volume_def noisy_cell_def noisy_vectors_def mat_Dabs_def mat_Nint_def
        size_VecDBL_def)

lemma noisy_search: "search_i noisy_vectors noisy_cell (1 / 100000) 0 = Some (0, Suc 0, 2)"
proof -
  have l4: "length noisy_vectors = 4" by (simp add: noisy_vectors_def)
  have "search_i noisy_vectors noisy_cell (1 / 100000) 0 =
          List.find (\<lambda>(i, j, k). triple_found noisy_vectors noisy_cell (1 / 100000) i j k)
            (index_triples 4)"
    using search_i_index_triples[of noisy_vectors noisy_cell "1 / 100000"] unfolding l4 .
  then show ?thesis
    unfolding index_triples_4 by (simp add: noisy_found_012)
qed

lemma noisy_raw:
  "transpose_d3 (noisy_vectors ! 0, noisy_vectors ! Suc 0, noisy_vectors ! 2)
     = ((51 / 100, 1, 0), (1 / 2, 0, 1), (1 / 2, 0, 0))"
  by (simp add: noisy_vectors_def)

lemma noisy_inverse:
  "mat_inverse_matrix_d3 ((51 / 100, 1, 0), (1 / 2, 0, 1), (1 / 2, 0, 0))
     = ((0, 0, 2), (1, 0, - (102 / 100)), (0, 1, - 1))"
  by (simp add: Let_def)

lemma noisy_rounded:
  "mat_cast_matrix_3d_to_3i ((0, 0, 2), (1, 0, - (102 / 100)), (0, 1, - 1))
     = ((0, 0, 2), (1, 0, - 1), (0, 1, - 1))"
  by (simp add: mat_Nint_def round_def)

lemma noisy_cleaned:
  "mat_inverse_matrix_d3 (mat_cast_matrix_3i_to_3d ((0, 0, 2), (1, 0, - 1), (0, 1, - 1)))
     = ((1 / 2, 1, 0), (1 / 2, 0, 1), (1 / 2, 0, 0))"
  by (simp add: Let_def)

lemma index_triples_5_head: "index_triples 5 = (0, 1, 2) # tl (index_triples 5)"
  by code_simp

lemma coarse_found_012: "triple_found coarse_vectors bcc_cell (1 / 100000) 0 (Suc 0) 2"
  unfolding triple_found_iff
  by (simp add: triple_volume_def bcc_cell_def coarse_vectors_def mat_Dabs_def mat_Nint_def
        round_def size_VecDBL_def)

lemma coarse_search: "search_i coarse_vectors bcc_cell (1 / 100000) 0 = Some (0, Suc 0, 2)"
proof -
  have l5: "length coarse_vectors = 5" by (simp add: coarse_vectors_def)
  have "search_i coarse_vectors bcc_cell (1 / 100000) 0 =
          List.find (\<lambda>(i, j, k). triple_found coarse_vectors bcc_cell (1 / 100000) i j k)
            (index_triples 5)"
    using search_i_index_triples[of coarse_vectors bcc_cell "1 / 100000"] unfolding l5 .
  then show ?thesis
    by (subst (asm) index_triples_5_head) (simp add: coarse_found_012)
qed

lemma coarse_raw:
  "transpose_d3 (coarse_vectors ! 0, coarse_vectors ! Suc 0, coarse_vectors ! 2)
     = ((0, 0, 1), (1 / 2, 0, 0), (0, 7 / 10, 0))"
  by (simp add: coarse_vectors_def)

lemma coarse_inverse:
  "mat_inverse_matrix_d3 ((0, 0, 1), (1 / 2, 0, 0), (0, 7 / 10, 0))
     = ((0, 2, 0), (0, 0, 10 / 7), (1, 0, 0))"
  by (simp add: Let_def)

lemma coarse_rounded:
  "mat_cast_matrix_3d_to_3i ((0, 2, 0), (0, 0, 10 / 7), (1, 0, 0))
     = ((0, 2, 0), (0, 0, 1), (1, 0, 0))"
  by (simp add: mat_Nint_def round_def)

text \<open>
  C8 (as the code has it). Once a triple is taken, the matrix whose columns are its
  vectors is inverted and every entry is rounded to the nearest integer. The inverse of
  the rounded integer matrix replaces the raw matrix if and only if the absolute value
  of the integer determinant equals the number of candidate vectors minus two (for a
  candidate list built from a translation list: the group order itself); otherwise the
  raw matrix is used. In both cases the function returns \<open>1\<close> with the lattice
  multiplied by that matrix.
\<close>

theorem relative_lattice_cleaned_iff:
  "(\<forall>i j k. search_i vectors cell symprec 0 = Some (i, j, k) \<longrightarrow>
      get_primitive_lattice_vectors vectors cell symprec =
       Some (mat_multiply_matrix_d3 (lattice cell)
          (let raw = transpose_d3 (vectors ! i, vectors ! j, vectors ! k);
               rounded = mat_cast_matrix_3d_to_3i (mat_inverse_matrix_d3 raw)
           in if \<bar>mat_get_determinant_i3 rounded\<bar> = size_VecDBL vectors - 2
              then mat_inverse_matrix_d3 (mat_cast_matrix_3i_to_3d rounded)
              else raw)))
   \<and> (\<forall>x. \<bar>real_of_int (mat_Nint x) - x\<bar> \<le> 1 / 2)
   \<and> (\<forall>pure_trans w. 1 \<le> size_VecDBL pure_trans \<and>
          fst (get_translation_candidates pure_trans w) = Inr vectors \<longrightarrow>
          size_VecDBL vectors - 2 = size_VecDBL pure_trans)"
proof (intro conjI allI impI)
  fix i j k assume "search_i vectors cell symprec 0 = Some (i, j, k)"
  then show "get_primitive_lattice_vectors vectors cell symprec =
       Some (mat_multiply_matrix_d3 (lattice cell)
          (let raw = transpose_d3 (vectors ! i, vectors ! j, vectors ! k);
               rounded = mat_cast_matrix_3d_to_3i (mat_inverse_matrix_d3 raw)
           in if \<bar>mat_get_determinant_i3 rounded\<bar> = size_VecDBL vectors - 2
              then mat_inverse_matrix_d3 (mat_cast_matrix_3i_to_3d rounded)
              else raw))"
    by (rule get_primitive_lattice_vectors_Some)
next
  fix x show "\<bar>real_of_int (mat_Nint x) - x\<bar> \<le> 1 / 2" by (rule mat_Nint_nearest)
next
  fix pure_trans w
  assume a: "1 \<le> size_VecDBL pure_trans \<and>
          fst (get_translation_candidates pure_trans w) = Inr vectors"
  then have l: "1 \<le> length pure_trans" by (simp add: size_VecDBL_def)
  from a have "vectors = tl pure_trans @ [unit_vector 0, unit_vector 1, unit_vector 2]"
    by (simp add: get_translation_candidates_eq[OF l] split: if_splits)
  then show "size_VecDBL vectors - 2 = size_VecDBL pure_trans"
    using l by (simp add: size_VecDBL_def)
qed

theorem relative_lattice_cleaned_iff_witness:
  "get_primitive_lattice_vectors noisy_vectors noisy_cell (1 / 100000)
       = Some ((1 / 2, 1, 0), (1 / 2, 0, 1), (1 / 2, 0, 0))
   \<and> size_VecDBL noisy_vectors - 2 = size_VecDBL noisy_pure_trans
   \<and> get_primitive_lattice_vectors coarse_vectors bcc_cell (1 / 100000)
       = Some ((0, 0, 1), (1 / 2, 0, 0), (0, 7 / 10, 0))
   \<and> \<bar>mat_get_determinant_i3 (mat_cast_matrix_3d_to_3i (mat_inverse_matrix_d3
         (transpose_d3 (coarse_vectors ! 0, coarse_vectors ! Suc 0, coarse_vectors ! 2))))\<bar> = 2
   \<and> size_VecDBL coarse_vectors - 2 = 3"
proof -
  note t = relative_lattice_cleaned_iff[of noisy_vectors noisy_cell "1 / 100000"]
  have l: "size_VecDBL noisy_vectors = 4" by (simp add: noisy_vectors_def size_VecDBL_def)
  have g: "get_primitive_lattice_vectors noisy_vectors noisy_cell (1 / 100000)
       = Some ((1 / 2, 1, 0), (1 / 2, 0, 1), (1 / 2, 0, 0))"
    unfolding t[THEN conjunct1, rule_format, OF noisy_search] Let_def
      noisy_raw noisy_inverse noisy_rounded l
    by (simp add: noisy_cleaned noisy_cell_def del: mat_inverse_matrix_d3.simps mat_cast_matrix_3i_to_3d.simps)
  have c: "1 \<le> size_VecDBL noisy_pure_trans \<and>
        fst (get_translation_candidates noisy_pure_trans world0) = Inr noisy_vectors"
    using get_translation_candidates_eq[of noisy_pure_trans world0]
    by (simp add: malloc_def world0_def noisy_pure_trans_def noisy_vectors_def unit_vectors
          size_VecDBL_def)
  have s: "size_VecDBL noisy_vectors - 2 = size_VecDBL noisy_pure_trans"
    using t[THEN conjunct2, THEN conjunct2, rule_format, OF c] .
  note u = relative_lattice_cleaned_iff[of coarse_vectors bcc_cell "1 / 100000"]
  have l5: "size_VecDBL coarse_vectors = 5" by (simp add: coarse_vectors_def size_VecDBL_def)
  have h: "get_primitive_lattice_vectors coarse_vectors bcc_cell (1 / 100000)
       = Some ((0, 0, 1), (1 / 2, 0, 0), (0, 7 / 10, 0))"
    unfolding u[THEN conjunct1, rule_format, OF coarse_search] Let_def
      coarse_raw coarse_inverse coarse_rounded l5
    by (simp add: bcc_cell_def)
  have d: "\<bar>mat_get_determinant_i3 (mat_cast_matrix_3d_to_3i (mat_inverse_matrix_d3
         (transpose_d3 (coarse_vectors ! 0, coarse_vectors ! Suc 0, coarse_vectors ! 2))))\<bar> = 2"
    unfolding coarse_raw coarse_inverse coarse_rounded by simp
  show ?thesis using g s h d l5 by simp
qed

text \<open>
  C8 as it is worded compares the integer determinant with the group order minus two.
  For the perturbed body-centred cell (group order two) the integer determinant has
  absolute value two, not zero, and the code returns the cleaned lattice, not the raw
  one.
\<close>

theorem relative_lattice_group_order_counterexample:
  "size_VecDBL noisy_pure_trans = 2
   \<and> get_translation_candidates noisy_pure_trans world0 = (Inr noisy_vectors, world0)
   \<and> search_i noisy_vectors noisy_cell (1 / 100000) 0 = Some (0, Suc 0, 2)
   \<and> \<bar>mat_get_determinant_i3 (mat_cast_matrix_3d_to_3i (mat_inverse_matrix_d3
         (transpose_d3 (noisy_vectors ! 0, noisy_vectors ! Suc 0, noisy_vectors ! 2))))\<bar> = 2
   \<and> get_primitive_lattice_vectors noisy_vectors noisy_cell (1 / 100000)
       = Some ((1 / 2, 1, 0), (1 / 2, 0, 1), (1 / 2, 0, 0))
   \<and> mat_multiply_matrix_d3 (lattice noisy_cell)
         (transpose_d3 (noisy_vectors ! 0, noisy_vectors ! Suc 0, noisy_vectors ! 2))
       = ((51 / 100, 1, 0), (1 / 2, 0, 1), (1 / 2, 0, 0))"
proof -
  have s: "size_VecDBL noisy_pure_trans = 2" by (simp add: noisy_pure_trans_def size_VecDBL_def)
  have c: "get_translation_candidates noisy_pure_trans world0 = (Inr noisy_vectors, world0)"
    using get_translation_candidates_eq[of noisy_pure_trans world0]
    by (simp add: malloc_def world0_def noisy_pure_trans_def noisy_vectors_def unit_vectors)
  have d: "\<bar>mat_get_determinant_i3 (mat_cast_matrix_3d_to_3i (mat_inverse_matrix_d3
         (transpose_d3 (noisy_vectors ! 0, noisy_vectors ! Suc 0, noisy_vectors ! 2))))\<bar> = 2"
    unfolding noisy_raw noisy_inverse noisy_rounded by simp
  have l: "size_VecDBL noisy_vectors = 4" by (simp add: noisy_vectors_def size_VecDBL_def)
  have g: "get_primitive_lattice_vectors noisy_vectors noisy_cell (1 / 100000)
       = Some ((1 / 2, 1, 0), (1 / 2, 0, 1), (1 / 2, 0, 0))"
    unfolding get_primitive_lattice_vectors_Some[OF noisy_search] Let_def
      noisy_raw noisy_inverse noisy_rounded l
    by (simp add: noisy_cleaned noisy_cell_def del: mat_inverse_matrix_d3.simps mat_cast_matrix_3i_to_3d.simps)
  have r: "mat_multiply_matrix_d3 (lattice noisy_cell)
         (transpose_d3 (noisy_vectors ! 0, noisy_vectors ! Suc 0, noisy_vectors ! 2))
       = ((51 / 100, 1, 0), (1 / 2, 0, 1), (1 / 2, 0, 0))"
    unfolding noisy_raw by (simp add: noisy_cell_def)
  show ?thesis using s c d g r noisy_search by simp
qed

section \<open>The cell with the smallest lattice\<close>

lemma smallest_cell_atoms_frame:
  "smallest_cell_atoms env trans_mat cell smallest_cell i = Inr c \<Longrightarrow>
     size_cell c = size_cell smallest_cell \<and> lattice c = lattice smallest_cell"
proof (induction env trans_mat cell smallest_cell i rule: smallest_cell_atoms.induct)
  case (1 env trans_mat cell smallest_cell i)
  show ?case
  proof (cases "i < size_cell cell")
    case False
    with "1.prems" show ?thesis by (simp add: smallest_cell_atoms.simps[of _ _ _ _ i])
  next
    case True
    from "1.prems" True obtain t types' p position' where
      a: "arr_load (types cell) i = Inr t"
         "arr_store (types smallest_cell) i t = Inr types'"
         "arr_load (position cell) i = Inr p"
         "arr_store (position smallest_cell) i
            (Dmod1_vector (Dmod1_prec env) (mat_multiply_matrix_vector_d3 trans_mat p)) = Inr position'"
      and r: "smallest_cell_atoms env trans_mat cell
               (smallest_cell\<lparr>types := types', position := position'\<rparr>) (i + 1) = Inr c"
      by (subst (asm) smallest_cell_atoms.simps) (auto split: sum.splits)
    from "1.IH"[OF True a r] show ?thesis by simp
  qed
qed

lemma smallest_cell_atoms_eq:
  assumes "size_cell cell = int n" "length (types cell) = n" "length (position cell) = n"
    and "length (types s) = n" "length (position s) = n" "i \<le> n"
  shows "smallest_cell_atoms env tm cell s (int i) =
           Inr (s\<lparr>types := take i (types s) @ drop i (types cell),
                  position := take i (position s) @
                    map (\<lambda>p. Dmod1_vector (Dmod1_prec env) (mat_multiply_matrix_vector_d3 tm p))
                      (drop i (position cell))\<rparr>)"
  using assms
proof (induction "n - i" arbitrary: i s)
  case 0
  then have "i = n" by simp
  with 0 show ?case by (subst smallest_cell_atoms.simps) simp
next
  case (Suc k)
  then have lt: "i < n" by simp
  let ?f = "\<lambda>p. Dmod1_vector (Dmod1_prec env) (mat_multiply_matrix_vector_d3 tm p)"
  let ?s = "s\<lparr>types := (types s)[i := types cell ! i],
               position := (position s)[i := ?f (position cell ! i)]\<rparr>"
  have ih: "smallest_cell_atoms env tm cell ?s (int (i + 1)) =
           Inr (?s\<lparr>types := take (i + 1) (types ?s) @ drop (i + 1) (types cell),
                  position := take (i + 1) (position ?s) @ map ?f (drop (i + 1) (position cell))\<rparr>)"
    using Suc.prems Suc.hyps(2) lt by (intro Suc.hyps(1)) auto
  have t: "take (i + 1) ((types s)[i := types cell ! i]) @ drop (i + 1) (types cell)
            = take i (types s) @ drop i (types cell)"
    using lt Suc.prems by (simp add: take_Suc_conv_app_nth Cons_nth_drop_Suc)
  have p: "take (i + 1) ((position s)[i := ?f (position cell ! i)]) @ map ?f (drop (i + 1) (position cell))
            = take i (position s) @ map ?f (drop i (position cell))"
    using lt Suc.prems by (simp add: take_Suc_conv_app_nth Cons_nth_drop_Suc[symmetric])
  have step: "smallest_cell_atoms env tm cell s (int i) = smallest_cell_atoms env tm cell ?s (int (i + 1))"
    using lt Suc.prems
    by (subst smallest_cell_atoms.simps) (simp add: arr_load_def arr_store_def add.commute)
  show ?case unfolding step ih using t p by simp
qed

lemma get_cell_with_smallest_lattice_eq:
  assumes "size_cell cell = int (length (types cell))"
    and "size_cell cell = int (length (position cell))"
  shows "get_cell_with_smallest_lattice env cell symprec w =
    (case del_delaunay_reduce env (lattice cell) symprec of
       None \<Rightarrow> (Inl Null, w)
     | Some min_lat \<Rightarrow>
         (if fst (malloc w) then
            Inr \<lparr>size_cell = size_cell cell, lattice = min_lat, types = types cell,
                 position = map (\<lambda>p. Dmod1_vector (Dmod1_prec env)
                     (mat_multiply_matrix_vector_d3
                        (mat_multiply_matrix_d3 (mat_inverse_matrix_d3 min_lat) (lattice cell)) p))
                   (position cell)\<rparr>
          else Inl Null, snd (malloc w)))"
proof (cases "del_delaunay_reduce env (lattice cell) symprec")
  case None
  then show ?thesis by (simp add: get_cell_with_smallest_lattice_def)
next
  case (Some min_lat)
  obtain ok w' where m: "malloc w = (ok, w')" by (cases "malloc w") auto
  show ?thesis
  proof (cases ok)
    case False
    with Some m show ?thesis
      by (simp add: get_cell_with_smallest_lattice_def cel_alloc_cell_def Let_def)
  next
    case True
    define n where "n = length (types cell)"
    let ?s = "\<lparr>size_cell = size_cell cell, lattice = min_lat,
                 types = replicate (nat (size_cell cell)) 0,
                 position = replicate (nat (size_cell cell)) (0, 0, 0)\<rparr>"
    have "smallest_cell_atoms env
            (mat_multiply_matrix_d3 (mat_inverse_matrix_d3 min_lat) (lattice cell)) cell ?s (int 0) =
           Inr (?s\<lparr>types := take 0 (types ?s) @ drop 0 (types cell),
                  position := take 0 (position ?s) @
                    map (\<lambda>p. Dmod1_vector (Dmod1_prec env) (mat_multiply_matrix_vector_d3
                       (mat_multiply_matrix_d3 (mat_inverse_matrix_d3 min_lat) (lattice cell)) p))
                      (drop 0 (position cell))\<rparr>)"
      using assms by (intro smallest_cell_atoms_eq[where n = n]) (auto simp: n_def)
    with Some m True show ?thesis
      by (simp add: get_cell_with_smallest_lattice_def cel_alloc_cell_def Let_def)
  qed
qed

lemma get_cell_with_smallest_lattice_size:
  assumes "get_cell_with_smallest_lattice env cell symprec w = (Inr c, w')"
  shows "size_cell c = size_cell cell"
proof -
  from assms obtain min_lat s w1 where
    "cel_alloc_cell (size_cell cell) w = (Inr s, w1)"
    and r: "smallest_cell_atoms env
         (mat_multiply_matrix_d3 (mat_inverse_matrix_d3 min_lat) (lattice cell)) cell
         (s\<lparr>lattice := min_lat\<rparr>) 0 = Inr c"
    by (auto simp: get_cell_with_smallest_lattice_def Let_def split: option.splits prod.splits sum.splits)
  then have "size_cell s = size_cell cell"
    by (auto simp: cel_alloc_cell_def split: prod.splits bool.splits)
  with smallest_cell_atoms_frame[OF r] show ?thesis by simp
qed

lemma mat_Dmod1_range: "0 \<le> mat_Dmod1 prec a \<and> mat_Dmod1 prec a < 1"
proof -
  have "0 \<le> a - real_of_int \<lfloor>a\<rfloor>" "a - real_of_int \<lfloor>a\<rfloor> < 1" by linarith+
  then show ?thesis by (simp add: mat_Dmod1_def Let_def)
qed

lemma get_cell_with_smallest_lattice_reduced:
  assumes "get_cell_with_smallest_lattice env cell symprec w = (Inr c, w')"
  shows "del_delaunay_reduce env (lattice cell) symprec = Some (lattice c)"
proof -
  from assms obtain min_lat s w1 where
    m: "del_delaunay_reduce env (lattice cell) symprec = Some min_lat"
    and "cel_alloc_cell (size_cell cell) w = (Inr s, w1)"
    and r: "smallest_cell_atoms env
         (mat_multiply_matrix_d3 (mat_inverse_matrix_d3 min_lat) (lattice cell)) cell
         (s\<lparr>lattice := min_lat\<rparr>) 0 = Inr c"
    by (auto simp: get_cell_with_smallest_lattice_def Let_def split: option.splits prod.splits sum.splits)
  from smallest_cell_atoms_frame[OF r] have "lattice c = min_lat" by simp
  with m show ?thesis by simp
qed

lemma floor_quarters:
  "\<lfloor>3 / 4 :: real\<rfloor> = 0" "\<lfloor>5 / 4 :: real\<rfloor> = 1" "\<lfloor>99999999 / 100000000 :: real\<rfloor> = 0"
  "\<lfloor>- (1 / 4) :: real\<rfloor> = - 1" "\<lfloor>1 / 3 :: real\<rfloor> = 0"
  by (simp_all add: floor_eq_iff)

lemma skew_reduce:
  "get_cell_with_smallest_lattice skew_env skew_cell (1 / 100000) world0 = (Inr skew_result, world0)"
proof -
  have a: "size_cell skew_cell = int (length (types skew_cell))"
          "size_cell skew_cell = int (length (position skew_cell))"
    by (simp_all add: skew_cell_def)
  show ?thesis
    unfolding get_cell_with_smallest_lattice_eq[OF a]
    by (simp add: skew_env_def skew_cell_def skew_result_def malloc_def world0_def mat_Dmod1_def
          Let_def floor_quarters)
qed

lemma mat_Dmod1_snap:
  assumes "1 - prec \<le> a" "a \<le> 1"
  shows "mat_Dmod1 prec a = 0"
proof (cases "a = 1")
  case True
  then show ?thesis by (simp add: mat_Dmod1_def Let_def)
next
  case False
  with assms have a1: "a < 1" by simp
  show ?thesis
  proof (cases "0 \<le> a")
    case True
    with a1 have "\<lfloor>a\<rfloor> = 0" by (simp add: floor_eq_iff)
    with assms show ?thesis by (simp add: mat_Dmod1_def Let_def)
  next
    case False
    with assms have p: "1 \<le> prec" by simp
    have "0 \<le> a - real_of_int \<lfloor>a\<rfloor>" by linarith
    with p have "1 - (a - real_of_int \<lfloor>a\<rfloor>) \<le> prec" by linarith
    then show ?thesis by (simp add: mat_Dmod1_def Let_def)
  qed
qed

lemma Dmod1_vector_folds:
  "case v of (y0, y1, y2) \<Rightarrow>
   case Dmod1_vector prec v of (x0, x1, x2) \<Rightarrow>
       x0 = (if 1 - (y0 - real_of_int \<lfloor>y0\<rfloor>) \<le> prec then 0 else y0 - real_of_int \<lfloor>y0\<rfloor>)
     \<and> x1 = (if 1 - (y1 - real_of_int \<lfloor>y1\<rfloor>) \<le> prec then 0 else y1 - real_of_int \<lfloor>y1\<rfloor>)
     \<and> x2 = (if 1 - (y2 - real_of_int \<lfloor>y2\<rfloor>) \<le> prec then 0 else y2 - real_of_int \<lfloor>y2\<rfloor>)
     \<and> 0 \<le> x0 \<and> x0 < 1 \<and> 0 \<le> x1 \<and> x1 < 1 \<and> 0 \<le> x2 \<and> x2 < 1
     \<and> (1 - prec \<le> y0 \<and> y0 \<le> 1 \<longrightarrow> x0 = 0)
     \<and> (1 - prec \<le> y1 \<and> y1 \<le> 1 \<longrightarrow> x1 = 0)
     \<and> (1 - prec \<le> y2 \<and> y2 \<le> 1 \<longrightarrow> x2 = 0)"
proof -
  obtain y0 y1 y2 where v: "v = (y0, y1, y2)" by (cases v) auto
  have e: "\<And>y. mat_Dmod1 prec y
             = (if 1 - (y - real_of_int \<lfloor>y\<rfloor>) \<le> prec then 0 else y - real_of_int \<lfloor>y\<rfloor>)"
    by (simp add: mat_Dmod1_def Let_def)
  have r: "\<And>y. 0 \<le> mat_Dmod1 prec y" "\<And>y. mat_Dmod1 prec y < 1"
    using mat_Dmod1_range by blast+
  have s: "\<And>y. 1 - prec \<le> y \<and> y \<le> 1 \<longrightarrow> mat_Dmod1 prec y = 0"
    using mat_Dmod1_snap by blast
  show ?thesis
    unfolding v prod.case Dmod1_vector.simps
    apply (intro conjI)
               apply (rule e)
              apply (rule e)
             apply (rule e)
            apply (rule r)
           apply (rule r)
          apply (rule r)
         apply (rule r)
        apply (rule r)
       apply (rule r)
      apply (rule s)
     apply (rule s)
    apply (rule s)
    done
qed

text \<open>
  C9. For a cell whose two arrays have \<open>size\<close> entries, when
  \<open>get_cell_with_smallest_lattice\<close> returns a cell, that cell has the same atom count and
  the same types in the same order, and its lattice is the reduced lattice. Every
  coordinate \<open>x\<close> of every output position comes from the coordinate \<open>y\<close> at the same
  place of the old position multiplied by the change-of-basis matrix: \<open>x\<close> is
  \<open>y - \<lfloor>y\<rfloor>\<close>, the representative of \<open>y\<close> modulo 1 in \<open>[0,1)\<close>, unless
  \<open>1 - (y - \<lfloor>y\<rfloor>)\<close> is at most the tolerance of \<open>mat_Dmod1\<close>, and then \<open>x\<close> is \<open>0\<close>. So
  every output coordinate lies in \<open>[0,1)\<close>, and an output coordinate whose \<open>y\<close> equals 1
  within the tolerance (\<open>1 - tolerance \<le> y \<le> 1\<close>) is \<open>0\<close>. The folding is that of
  \<open>mat_Dmod1\<close> as the spec words it.
\<close>

theorem smallest_lattice_cell_keeps_atoms:
  assumes "size_cell cell = int (length (types cell))"
    and "size_cell cell = int (length (position cell))"
    and "get_cell_with_smallest_lattice env cell symprec w = (Inr c, w')"
  shows "size_cell c = size_cell cell
    \<and> types c = types cell
    \<and> length (position c) = length (position cell)
    \<and> del_delaunay_reduce env (lattice cell) symprec = Some (lattice c)
    \<and> (\<forall>i < length (position cell).
         case mat_multiply_matrix_vector_d3
                (mat_multiply_matrix_d3 (mat_inverse_matrix_d3 (lattice c)) (lattice cell))
                (position cell ! i) of (y0, y1, y2) \<Rightarrow>
         case position c ! i of (x0, x1, x2) \<Rightarrow>
             x0 = (if 1 - (y0 - real_of_int \<lfloor>y0\<rfloor>) \<le> Dmod1_prec env then 0
                   else y0 - real_of_int \<lfloor>y0\<rfloor>)
           \<and> x1 = (if 1 - (y1 - real_of_int \<lfloor>y1\<rfloor>) \<le> Dmod1_prec env then 0
                   else y1 - real_of_int \<lfloor>y1\<rfloor>)
           \<and> x2 = (if 1 - (y2 - real_of_int \<lfloor>y2\<rfloor>) \<le> Dmod1_prec env then 0
                   else y2 - real_of_int \<lfloor>y2\<rfloor>)
           \<and> 0 \<le> x0 \<and> x0 < 1 \<and> 0 \<le> x1 \<and> x1 < 1 \<and> 0 \<le> x2 \<and> x2 < 1
           \<and> (1 - Dmod1_prec env \<le> y0 \<and> y0 \<le> 1 \<longrightarrow> x0 = 0)
           \<and> (1 - Dmod1_prec env \<le> y1 \<and> y1 \<le> 1 \<longrightarrow> x1 = 0)
           \<and> (1 - Dmod1_prec env \<le> y2 \<and> y2 \<le> 1 \<longrightarrow> x2 = 0))"
proof -
  from assms(3) obtain min_lat where
    m: "del_delaunay_reduce env (lattice cell) symprec = Some min_lat"
    by (auto simp: get_cell_with_smallest_lattice_def split: option.splits)
  let ?T = "mat_multiply_matrix_d3 (mat_inverse_matrix_d3 min_lat) (lattice cell)"
  let ?f = "\<lambda>p. Dmod1_vector (Dmod1_prec env) (mat_multiply_matrix_vector_d3 ?T p)"
  have c: "c = \<lparr>size_cell = size_cell cell, lattice = min_lat, types = types cell,
                 position = map ?f (position cell)\<rparr>"
    using assms(3) unfolding get_cell_with_smallest_lattice_eq[OF assms(1,2)] m
    by (simp split: if_splits)
  have l: "lattice c = min_lat" unfolding c by simp
  have q: "size_cell c = size_cell cell" "types c = types cell"
      "length (position c) = length (position cell)"
      "del_delaunay_reduce env (lattice cell) symprec = Some (lattice c)"
    unfolding c using m by simp_all
  have r: "\<forall>i < length (position cell).
         case mat_multiply_matrix_vector_d3
                (mat_multiply_matrix_d3 (mat_inverse_matrix_d3 (lattice c)) (lattice cell))
                (position cell ! i) of (y0, y1, y2) \<Rightarrow>
         case position c ! i of (x0, x1, x2) \<Rightarrow>
             x0 = (if 1 - (y0 - real_of_int \<lfloor>y0\<rfloor>) \<le> Dmod1_prec env then 0
                   else y0 - real_of_int \<lfloor>y0\<rfloor>)
           \<and> x1 = (if 1 - (y1 - real_of_int \<lfloor>y1\<rfloor>) \<le> Dmod1_prec env then 0
                   else y1 - real_of_int \<lfloor>y1\<rfloor>)
           \<and> x2 = (if 1 - (y2 - real_of_int \<lfloor>y2\<rfloor>) \<le> Dmod1_prec env then 0
                   else y2 - real_of_int \<lfloor>y2\<rfloor>)
           \<and> 0 \<le> x0 \<and> x0 < 1 \<and> 0 \<le> x1 \<and> x1 < 1 \<and> 0 \<le> x2 \<and> x2 < 1
           \<and> (1 - Dmod1_prec env \<le> y0 \<and> y0 \<le> 1 \<longrightarrow> x0 = 0)
           \<and> (1 - Dmod1_prec env \<le> y1 \<and> y1 \<le> 1 \<longrightarrow> x1 = 0)
           \<and> (1 - Dmod1_prec env \<le> y2 \<and> y2 \<le> 1 \<longrightarrow> x2 = 0)"
  proof (intro allI impI)
    fix i assume i: "i < length (position cell)"
    then have p: "position c ! i = ?f (position cell ! i)" unfolding c by simp
    show "case mat_multiply_matrix_vector_d3
                (mat_multiply_matrix_d3 (mat_inverse_matrix_d3 (lattice c)) (lattice cell))
                (position cell ! i) of (y0, y1, y2) \<Rightarrow>
         case position c ! i of (x0, x1, x2) \<Rightarrow>
             x0 = (if 1 - (y0 - real_of_int \<lfloor>y0\<rfloor>) \<le> Dmod1_prec env then 0
                   else y0 - real_of_int \<lfloor>y0\<rfloor>)
           \<and> x1 = (if 1 - (y1 - real_of_int \<lfloor>y1\<rfloor>) \<le> Dmod1_prec env then 0
                   else y1 - real_of_int \<lfloor>y1\<rfloor>)
           \<and> x2 = (if 1 - (y2 - real_of_int \<lfloor>y2\<rfloor>) \<le> Dmod1_prec env then 0
                   else y2 - real_of_int \<lfloor>y2\<rfloor>)
           \<and> 0 \<le> x0 \<and> x0 < 1 \<and> 0 \<le> x1 \<and> x1 < 1 \<and> 0 \<le> x2 \<and> x2 < 1
           \<and> (1 - Dmod1_prec env \<le> y0 \<and> y0 \<le> 1 \<longrightarrow> x0 = 0)
           \<and> (1 - Dmod1_prec env \<le> y1 \<and> y1 \<le> 1 \<longrightarrow> x1 = 0)
           \<and> (1 - Dmod1_prec env \<le> y2 \<and> y2 \<le> 1 \<longrightarrow> x2 = 0)"
      unfolding p l
      by (rule Dmod1_vector_folds[where v = "mat_multiply_matrix_vector_d3 ?T (position cell ! i)"
            and prec = "Dmod1_prec env"])
  qed
  show ?thesis
    apply (intro conjI)
        apply (fact q(1))
       apply (fact q(2))
      apply (fact q(3))
     apply (fact q(4))
    apply (fact r)
    done
qed

theorem smallest_lattice_cell_keeps_atoms_witness:
  "get_cell_with_smallest_lattice skew_env skew_cell (1 / 100000) world0 = (Inr skew_result, world0)
   \<and> size_cell skew_result = size_cell skew_cell
   \<and> types skew_result = types skew_cell
   \<and> position skew_cell = [(3 / 4, 1 / 2, 99999999 / 100000000), (- (1 / 4), 1 / 4, 1 / 3)]
   \<and> mat_multiply_matrix_vector_d3
        (mat_multiply_matrix_d3 (mat_inverse_matrix_d3 (lattice skew_result)) (lattice skew_cell))
        (position skew_cell ! 0) = (3 / 4, 5 / 4, 99999999 / 100000000)
   \<and> 1 - Dmod1_prec skew_env \<le> 99999999 / 100000000
   \<and> position skew_result = [(3 / 4, 1 / 4, 0), (3 / 4, 0, 1 / 3)]
   \<and> (case position skew_result ! 0 of (x0, x1, x2) \<Rightarrow>
         0 \<le> x0 \<and> x0 < 1 \<and> 0 \<le> x1 \<and> x1 < 1 \<and> x2 = 0)
   \<and> (case position skew_result ! 1 of (x0, x1, x2) \<Rightarrow>
         0 \<le> x0 \<and> x0 < 1 \<and> 0 \<le> x1 \<and> x1 < 1 \<and> 0 \<le> x2 \<and> x2 < 1)"
proof -
  have a: "size_cell skew_cell = int (length (types skew_cell))"
          "size_cell skew_cell = int (length (position skew_cell))"
    by (simp_all add: skew_cell_def)
  note t = smallest_lattice_cell_keeps_atoms[OF a skew_reduce]
  have b: "size_cell skew_result = size_cell skew_cell" using t by blast
  have c: "types skew_result = types skew_cell" using t by blast
  have d: "position skew_cell = [(3 / 4, 1 / 2, 99999999 / 100000000), (- (1 / 4), 1 / 4, 1 / 3)]"
    "position skew_result = [(3 / 4, 1 / 4, 0), (3 / 4, 0, 1 / 3)]"
    by (simp_all add: skew_cell_def skew_result_def)
  have y: "mat_multiply_matrix_vector_d3
        (mat_multiply_matrix_d3 (mat_inverse_matrix_d3 (lattice skew_result)) (lattice skew_cell))
        (position skew_cell ! 0) = (3 / 4, 5 / 4, 99999999 / 100000000)"
    by (simp add: skew_cell_def skew_result_def)
  have p: "1 - Dmod1_prec skew_env \<le> 99999999 / 100000000" by (simp add: skew_env_def)
  have l: "0 < length (position skew_cell)" "Suc 0 < length (position skew_cell)"
    by (simp_all add: skew_cell_def)
  note u = t[THEN conjunct2, THEN conjunct2, THEN conjunct2, THEN conjunct2, rule_format]
  have e0: "case position skew_result ! 0 of (x0, x1, x2) \<Rightarrow>
         0 \<le> x0 \<and> x0 < 1 \<and> 0 \<le> x1 \<and> x1 < 1 \<and> x2 = 0"
    using u[OF l(1), unfolded y prod.case] p by (auto split: prod.splits)
  have e1: "case position skew_result ! 1 of (x0, x1, x2) \<Rightarrow>
         0 \<le> x0 \<and> x0 < 1 \<and> 0 \<le> x1 \<and> x1 < 1 \<and> 0 \<le> x2 \<and> x2 < 1"
    using u[OF l(2)] by (auto split: prod.splits)
  show ?thesis
    apply (intro conjI)
            apply (fact skew_reduce)
           apply (fact b)
          apply (fact c)
         apply (fact d(1))
        apply (fact y)
       apply (fact p)
      apply (fact d(2))
     apply (fact e0)
    apply (fact e1)
    done
qed

section \<open>The tolerances of the iterative search\<close>

lemma geometric_Nil [simp]: "geometric t []"
  by (simp add: geometric_def)

lemma geometric_Cons: "geometric (t * REDUCE_RATE) xs \<Longrightarrow> geometric t (t # xs)"
proof -
  assume a: "geometric (t * REDUCE_RATE) xs"
  have "map (\<lambda>k. t * REDUCE_RATE ^ k) [0..<Suc (length xs)]
          = t # map (\<lambda>k. t * REDUCE_RATE * REDUCE_RATE ^ k) [0..<length xs]"
    by (simp add: map_upt_Suc mult.assoc del: upt_Suc)
  also have "\<dots> = t # xs" using a unfolding geometric_def by simp
  finally show ?thesis unfolding geometric_def by simp
qed

lemma geometric_single [simp]: "geometric t [t]"
  using geometric_Cons[of t "[]"] by simp

lemma pure_translation_tolerances_append [simp]:
  "pure_translation_tolerances (xs @ ys) = pure_translation_tolerances xs @ pure_translation_tolerances ys"
  by (induction xs rule: pure_translation_tolerances.induct) auto

lemma stage_b_tolerances_append [simp]:
  "stage_b_tolerances (xs @ ys) = stage_b_tolerances xs @ stage_b_tolerances ys"
  by (induction xs rule: stage_b_tolerances.induct) auto

lemma reduce_tolerances_append [simp]:
  "reduce_tolerances (xs @ ys) = reduce_tolerances xs @ reduce_tolerances ys"
  by (induction xs rule: reduce_tolerances.induct) auto

lemma malloc_trace: "malloc w = (b, w') \<Longrightarrow> trace w' = trace w"
  by (auto simp: malloc_def split: list.splits)

lemma mat_alloc_VecDBL_trace: "mat_alloc_VecDBL n w = (r, w') \<Longrightarrow> trace w' = trace w"
  by (auto simp: mat_alloc_VecDBL_def split: prod.splits bool.splits dest: malloc_trace)

lemma cel_alloc_cell_trace: "cel_alloc_cell n w = (r, w') \<Longrightarrow> trace w' = trace w"
  by (auto simp: cel_alloc_cell_def split: prod.splits bool.splits dest: malloc_trace)

lemma get_translation_candidates_trace:
  "get_translation_candidates pure_trans w = (r, w') \<Longrightarrow> trace w' = trace w"
  by (auto simp: get_translation_candidates_def Let_def split: prod.splits sum.splits
        dest: mat_alloc_VecDBL_trace)

lemma get_cell_with_smallest_lattice_trace:
  "get_cell_with_smallest_lattice env cell symprec w = (r, w') \<Longrightarrow> trace w' = trace w"
  by (auto simp: get_cell_with_smallest_lattice_def Let_def split: option.splits prod.splits sum.splits
        dest: cel_alloc_cell_trace)

lemma trace_emit [simp]: "trace (emit e w) = trace w @ [e]"
  by (simp add: emit_def)


lemma iterative_attempts_trace:
  "iterative_attempts env cell angle_tolerance attempt tolerance pure_trans_reduced w = (r, w') \<Longrightarrow>
   \<exists>evs. trace w' = trace w @ evs
     \<and> geometric tolerance (stage_b_tolerances evs)
     \<and> geometric tolerance (reduce_tolerances evs)
     \<and> length (stage_b_tolerances evs) \<le> NUM_ATTEMPT - attempt
     \<and> (length (reduce_tolerances evs) = length (stage_b_tolerances evs)
          \<or> Suc (length (reduce_tolerances evs)) = length (stage_b_tolerances evs))
     \<and> pure_translation_tolerances evs = []
     \<and> Call_prm_free_primitive \<notin> set evs
     \<and> ((\<exists>x. r = Inr x) \<longrightarrow> Suc (length (reduce_tolerances evs)) = length (stage_b_tolerances evs))"
proof (induction env cell angle_tolerance attempt tolerance pure_trans_reduced w
        arbitrary: r w' rule: iterative_attempts.induct)
  case (1 env cell angle_tolerance attempt tolerance pure_trans_reduced w)
  show ?case
  proof (cases "attempt < NUM_ATTEMPT")
    case False
    with "1.prems" have "w' = w" "r = Inl Null"
      by (subst (asm) iterative_attempts.simps, simp)+
    then show ?thesis by (intro exI[of _ "[]"]) simp
  next
    case lt: True
    obtain rc w1 where c: "get_translation_candidates pure_trans_reduced w = (rc, w1)"
      by (cases "get_translation_candidates pure_trans_reduced w") auto
    then have t1: "trace w1 = trace w" by (rule get_translation_candidates_trace)
    show ?thesis
    proof (cases rc)
      case (Inl e)
      with "1.prems" lt c have "w' = w1" "r = Inl e"
        by (subst (asm) iterative_attempts.simps, simp add: Let_def)+
      with t1 show ?thesis by (intro exI[of _ "[]"]) simp
    next
      case (Inr vectors)
      let ?w2 = "emit (Call_get_primitive_lattice_vectors tolerance) w1"
      show ?thesis
      proof (cases "get_primitive_lattice_vectors vectors cell tolerance")
        case (Some prim_lattice)
        with "1.prems" lt c Inr have "w' = ?w2"
          by (subst (asm) iterative_attempts.simps) (simp add: Let_def)
        with t1 lt show ?thesis
          by (intro exI[of _ "[Call_get_primitive_lattice_vectors tolerance]"]) simp
      next
        case None
        obtain ra w3 where a: "mat_alloc_VecDBL (size_VecDBL pure_trans_reduced) ?w2 = (ra, w3)"
          by (cases "mat_alloc_VecDBL (size_VecDBL pure_trans_reduced) ?w2") auto
        then have t3: "trace w3 = trace w @ [Call_get_primitive_lattice_vectors tolerance]"
          using mat_alloc_VecDBL_trace[OF a] t1 by simp
        show ?thesis
        proof (cases ra)
          case (Inl e)
          with "1.prems" lt c Inr None a have "w' = w3" "r = Inl e"
            by (subst (asm) iterative_attempts.simps, simp add: Let_def)+
          with t3 lt show ?thesis
            by (intro exI[of _ "[Call_get_primitive_lattice_vectors tolerance]"]) simp
        next
          case tmp: (Inr tmp_vec)
          show ?thesis
          proof (cases "copy_vectors tmp_vec pure_trans_reduced (size_VecDBL pure_trans_reduced) 0")
            case (Inl e)
            with "1.prems" lt c Inr None a tmp have "w' = w3" "r = Inl e"
              by (subst (asm) iterative_attempts.simps, simp add: Let_def)+
            with t3 lt show ?thesis
              by (intro exI[of _ "[Call_get_primitive_lattice_vectors tolerance]"]) simp
          next
            case cp: (Inr tmp_vec')
            let ?w4 = "emit (Call_sym_reduce_pure_translation tolerance) w3"
            show ?thesis
            proof (cases "sym_reduce_pure_translation env cell tmp_vec' tolerance angle_tolerance")
              case rn: None
              with "1.prems" lt c Inr None a tmp cp have "w' = ?w4" "r = Inl Null"
                by (subst (asm) iterative_attempts.simps, simp add: Let_def)+
              with t3 lt show ?thesis
                by (intro exI[of _ "[Call_get_primitive_lattice_vectors tolerance,
                                     Call_sym_reduce_pure_translation tolerance]"]) simp
            next
              case rs: (Some reduced)
              from "1.prems" lt c Inr None a tmp cp rs
              have rec: "iterative_attempts env cell angle_tolerance (attempt + 1)
                          (tolerance * REDUCE_RATE) reduced ?w4 = (r, w')"
                by (subst (asm) iterative_attempts.simps) (simp add: Let_def)
              from "1.IH"[OF lt refl c[symmetric] Inr refl None a[symmetric] tmp cp refl rs rec]
              obtain evs where e: "trace w' = trace ?w4 @ evs"
                "geometric (tolerance * REDUCE_RATE) (stage_b_tolerances evs)"
                "geometric (tolerance * REDUCE_RATE) (reduce_tolerances evs)"
                "length (stage_b_tolerances evs) \<le> NUM_ATTEMPT - (attempt + 1)"
                "length (reduce_tolerances evs) = length (stage_b_tolerances evs)
                   \<or> Suc (length (reduce_tolerances evs)) = length (stage_b_tolerances evs)"
                "pure_translation_tolerances evs = []"
                "Call_prm_free_primitive \<notin> set evs"
                "(\<exists>x. r = Inr x) \<longrightarrow> Suc (length (reduce_tolerances evs)) = length (stage_b_tolerances evs)"
                by blast
              show ?thesis
                using e lt t3
                by (intro exI[of _ "Call_get_primitive_lattice_vectors tolerance #
                                    Call_sym_reduce_pure_translation tolerance # evs"])
                   (simp add: geometric_Cons)
            qed
          qed
        qed
      qed
    qed
  qed
qed

lemma copy_vectors_eq:
  "i \<le> length src \<Longrightarrow> length dst = length src \<Longrightarrow>
   copy_vectors dst src (int (length src)) (int i) = Inr (take i dst @ drop i src)"
proof (induction "length src - i" arbitrary: i dst)
  case 0
  then have "i = length src" by simp
  with 0 show ?case by (subst copy_vectors.simps) simp
next
  case (Suc k)
  then have lt: "i < length src" by simp
  have ih: "copy_vectors (dst[i := src ! i]) src (int (length src)) (int (i + 1))
              = Inr (take (i + 1) (dst[i := src ! i]) @ drop (i + 1) src)"
    using Suc lt by (intro Suc.hyps(1)) auto
  have a: "take (i + 1) (dst[i := src ! i]) @ drop (i + 1) src = take i dst @ drop i src"
    using lt Suc.prems by (simp add: take_Suc_conv_app_nth Cons_nth_drop_Suc)
  have step: "copy_vectors dst src (int (length src)) (int i)
                = copy_vectors (dst[i := src ! i]) src (int (length src)) (int (i + 1))"
    using lt Suc.prems
    by (subst copy_vectors.simps) (simp add: arr_load_def arr_store_def add.commute)
  show ?case unfolding step ih a ..
qed

lemma copy_fresh:
  "copy_vectors (replicate (nat (size_VecDBL src)) (0, 0, 0)) src (size_VecDBL src) 0 = Inr src"
  using copy_vectors_eq[of 0 src "replicate (length src) (0, 0, 0)"]
  by (simp add: size_VecDBL_def)

lemma stray_candidates:
  assumes "heap w = []"
  shows "get_translation_candidates stray_pure_trans w =
     (Inr [(3 / 10, 0, 0), (1, 0, 0), (0, 1, 0), (0, 0, 1)], w)"
  using assms get_translation_candidates_eq[of stray_pure_trans w]
  by (simp add: malloc_def stray_pure_trans_def unit_vectors)

lemma identity_candidates:
  assumes "heap w = []"
  shows "get_translation_candidates [(0, 0, 0)] w = (Inr [(1, 0, 0), (0, 1, 0), (0, 0, 1)], w)"
  using assms get_translation_candidates_eq[of "[(0, 0, 0)]" w]
  by (simp add: malloc_def unit_vectors)

lemma index_triples_3: "index_triples 3 = [(0, 1, 2)]"
  by code_simp

lemma search_i_4:
  "length vectors = 4 \<Longrightarrow>
   search_i vectors cell symprec 0 =
     List.find (\<lambda>(i, j, k). triple_found vectors cell symprec i j k)
       [(0, 1, 2), (0, 1, 3), (0, 2, 3), (1, 2, 3)]"
  using search_i_index_triples[of vectors cell symprec] by (simp add: index_triples_4)

lemma search_i_3:
  "length vectors = 3 \<Longrightarrow>
   search_i vectors cell symprec 0 =
     List.find (\<lambda>(i, j, k). triple_found vectors cell symprec i j k) [(0, 1, 2)]"
  using search_i_index_triples[of vectors cell symprec] by (simp add: index_triples_3)

lemma retry_env_reduce:
  "sym_reduce_pure_translation retry_env c v t a = Some [(0, 0, 0)]"
  by (simp add: retry_env_def)

lemma stray_stage_b:
  "get_primitive_lattice_vectors [(3 / 10, 0, 0), (1, 0, 0), (0, 1, 0), (0, 0, 1)] bcc_cell
     (1 / 100000) = None"
proof -
  have "search_i [(3 / 10, 0, 0), (1, 0, 0), (0, 1, 0), (0, 0, 1)] bcc_cell (1 / 100000) 0 = None"
    by (subst search_i_4)
       (simp_all add: triple_found_iff triple_volume_def bcc_cell_def mat_Dabs_def
          mat_Nint_def round_def size_VecDBL_def)
  then show ?thesis by (simp add: get_primitive_lattice_vectors_None)
qed

lemma identity_stage_b:
  "get_primitive_lattice_vectors [(1, 0, 0), (0, 1, 0), (0, 0, 1)] bcc_cell (19 / 2000000)
     = Some ((1, 0, 0), (0, 1, 0), (0, 0, 1))"
proof -
  have s: "search_i [(1, 0, 0), (0, 1, 0), (0, 0, 1)] bcc_cell (19 / 2000000) 0 = Some (0, Suc 0, 2)"
    by (subst search_i_3)
       (simp_all add: triple_found_iff triple_volume_def bcc_cell_def mat_Dabs_def
          mat_Nint_def size_VecDBL_def)
  show ?thesis
    unfolding get_primitive_lattice_vectors_Some[OF s]
    by (simp add: Let_def bcc_cell_def mat_Nint_def size_VecDBL_def)
qed

lemma stray_run:
  "get_primitive_lattice_vectors_iterative retry_env bcc_cell stray_pure_trans (1 / 100000) (- 1)
       world0
     = (Inr (((1, 0, 0), (0, 1, 0), (0, 0, 1)), 1),
        \<lparr>heap = [],
         trace = [Call_get_primitive_lattice_vectors (1 / 100000),
                  Call_sym_reduce_pure_translation (1 / 100000),
                  Call_get_primitive_lattice_vectors (19 / 2000000)]\<rparr>)"
proof -
  have n: "0 < NUM_ATTEMPT" "Suc 0 < NUM_ATTEMPT" by (simp_all add: NUM_ATTEMPT_def)
  have cf: "copy_vectors (replicate (nat (size_VecDBL stray_pure_trans)) (0, 0, 0)) stray_pure_trans
              (size_VecDBL stray_pure_trans) 0 = Inr stray_pure_trans"
    by (rule copy_fresh)
  have second: "iterative_attempts retry_env bcc_cell (- 1) (Suc 0) (19 / 2000000) [(0, 0, 0)]
          \<lparr>heap = [], trace = [Call_get_primitive_lattice_vectors (1 / 100000),
                  Call_sym_reduce_pure_translation (1 / 100000)]\<rparr>
        = (Inr (((1, 0, 0), (0, 1, 0), (0, 0, 1)), 1),
        \<lparr>heap = [],
         trace = [Call_get_primitive_lattice_vectors (1 / 100000),
                  Call_sym_reduce_pure_translation (1 / 100000),
                  Call_get_primitive_lattice_vectors (19 / 2000000)]\<rparr>)"
    by (subst iterative_attempts.simps)
       (simp add: n identity_candidates identity_stage_b emit_def size_VecDBL_def)
  have first: "iterative_attempts retry_env bcc_cell (- 1) 0 (1 / 100000) stray_pure_trans world0
        = (Inr (((1, 0, 0), (0, 1, 0), (0, 0, 1)), 1),
        \<lparr>heap = [],
         trace = [Call_get_primitive_lattice_vectors (1 / 100000),
                  Call_sym_reduce_pure_translation (1 / 100000),
                  Call_get_primitive_lattice_vectors (19 / 2000000)]\<rparr>)"
    apply (subst iterative_attempts.simps)
    apply (simp add: n stray_candidates stray_stage_b emit_def world0_def
             mat_alloc_VecDBL_def malloc_def cf Let_def)
    apply (simp add: retry_env_reduce REDUCE_RATE_def second)
    done
  show ?thesis
    unfolding get_primitive_lattice_vectors_iterative_def
    by (simp add: mat_alloc_VecDBL_def malloc_def world0_def cf first[unfolded world0_def])
qed

text \<open>
  C7 (as the code has it). Within one call of \<open>get_primitive_lattice_vectors_iterative\<close>
  there are at most \<open>NUM_ATTEMPT\<close> calls of the triple search, and the call number \<open>k\<close>
  (from \<open>0\<close>) is given the tolerance \<open>symprec * REDUCE_RATE^k\<close>; so is the call number \<open>k\<close>
  of \<open>sym_reduce_pure_translation\<close>, which follows a failed triple search. The tolerance
  is multiplied by \<open>REDUCE_RATE\<close> after every failed iteration of this stage.
\<close>

theorem iterative_tolerance_decays:
  assumes "get_primitive_lattice_vectors_iterative env cell pure_trans symprec angle_tolerance w
             = (r, w')"
  shows "\<exists>evs n m. trace w' = trace w @ evs
     \<and> n \<le> NUM_ATTEMPT
     \<and> stage_b_tolerances evs = map (\<lambda>k. symprec * REDUCE_RATE ^ k) [0..<n]
     \<and> reduce_tolerances evs = map (\<lambda>k. symprec * REDUCE_RATE ^ k) [0..<m]
     \<and> (m = n \<or> Suc m = n)"
proof -
  obtain ra w1 where a: "mat_alloc_VecDBL (size_VecDBL pure_trans) w = (ra, w1)"
    by (cases "mat_alloc_VecDBL (size_VecDBL pure_trans) w") auto
  have t1: "trace w1 = trace w" using mat_alloc_VecDBL_trace[OF a] .
  have nil: "\<exists>evs n m. trace w = trace w @ evs
     \<and> n \<le> NUM_ATTEMPT
     \<and> stage_b_tolerances evs = map (\<lambda>k. symprec * REDUCE_RATE ^ k) [0..<n]
     \<and> reduce_tolerances evs = map (\<lambda>k. symprec * REDUCE_RATE ^ k) [0..<m]
     \<and> (m = n \<or> Suc m = n)"
    by (intro exI[of _ "[]"] exI[of _ 0]) simp
  show ?thesis
  proof (cases ra)
    case (Inl e)
    with assms a have "w' = w1"
      by (simp add: get_primitive_lattice_vectors_iterative_def)
    with t1 nil show ?thesis by simp
  next
    case (Inr pure_trans_reduced)
    show ?thesis
    proof (cases "copy_vectors pure_trans_reduced pure_trans (size_VecDBL pure_trans) 0")
      case (Inl e)
      with assms a Inr have "w' = w1"
        by (simp add: get_primitive_lattice_vectors_iterative_def)
      with t1 nil show ?thesis by simp
    next
      case cp: (Inr pure_trans_reduced')
      with assms a Inr have
        "iterative_attempts env cell angle_tolerance 0 symprec pure_trans_reduced' w1 = (r, w')"
        by (simp add: get_primitive_lattice_vectors_iterative_def)
      from iterative_attempts_trace[OF this] obtain evs where
        e: "trace w' = trace w1 @ evs"
           "geometric symprec (stage_b_tolerances evs)"
           "geometric symprec (reduce_tolerances evs)"
           "length (stage_b_tolerances evs) \<le> NUM_ATTEMPT - 0"
           "length (reduce_tolerances evs) = length (stage_b_tolerances evs)
              \<or> Suc (length (reduce_tolerances evs)) = length (stage_b_tolerances evs)"
        by blast
      have tr: "trace w' = trace w @ evs" using e(1) t1 by simp
      have le: "length (stage_b_tolerances evs) \<le> NUM_ATTEMPT" using e(4) by simp
      have sb: "stage_b_tolerances evs =
                  map (\<lambda>k. symprec * REDUCE_RATE ^ k) [0..<length (stage_b_tolerances evs)]"
        using e(2) unfolding geometric_def .
      have rd: "reduce_tolerances evs =
                  map (\<lambda>k. symprec * REDUCE_RATE ^ k) [0..<length (reduce_tolerances evs)]"
        using e(3) unfolding geometric_def .
      show ?thesis
        apply (rule exI[of _ evs])
        apply (rule exI[of _ "length (stage_b_tolerances evs)"])
        apply (rule exI[of _ "length (reduce_tolerances evs)"])
        apply (intro conjI)
            apply (fact tr)
           apply (fact le)
          apply (fact sb)
         apply (fact rd)
        apply (fact e(5))
        done
    qed
  qed
qed

theorem iterative_tolerance_decays_witness:
  "\<exists>evs n m. trace \<lparr>heap = [],
         trace = [Call_get_primitive_lattice_vectors (1 / 100000),
                  Call_sym_reduce_pure_translation (1 / 100000),
                  Call_get_primitive_lattice_vectors (19 / 2000000)]\<rparr> = trace world0 @ evs
     \<and> n \<le> NUM_ATTEMPT
     \<and> stage_b_tolerances evs = map (\<lambda>k. 1 / 100000 * REDUCE_RATE ^ k) [0..<n]
     \<and> reduce_tolerances evs = map (\<lambda>k. 1 / 100000 * REDUCE_RATE ^ k) [0..<m]
     \<and> (m = n \<or> Suc m = n)"
  using iterative_tolerance_decays[OF stray_run] .

text \<open>
  C7 as it is worded keeps the tolerance equal to \<open>symprec\<close> over all iterations. Here
  the first triple search fails, the refinement returns the identity alone, and the
  second triple search is given \<open>symprec * 0.95\<close>.
\<close>

theorem iterative_tolerance_constant_counterexample:
  "get_primitive_lattice_vectors_iterative retry_env bcc_cell stray_pure_trans (1 / 100000) (- 1)
       world0
     = (Inr (((1, 0, 0), (0, 1, 0), (0, 0, 1)), 1),
        \<lparr>heap = [],
         trace = [Call_get_primitive_lattice_vectors (1 / 100000),
                  Call_sym_reduce_pure_translation (1 / 100000),
                  Call_get_primitive_lattice_vectors (19 / 2000000)]\<rparr>)
   \<and> (19 / 2000000 :: real) \<noteq> 1 / 100000
   \<and> (19 / 2000000 :: real) = 1 / 100000 * REDUCE_RATE"
  using stray_run by (simp add: REDUCE_RATE_def)

section \<open>The attempts of get_primitive\<close>

lemma store_identity_result:
  "store_identity mapping_table n i0 = r \<Longrightarrow>
     (case r of
        Inl e \<Rightarrow> e = Undefined
      | Inr mt' \<Rightarrow> length mt' = length mapping_table
          \<and> (\<forall>i. i0 \<le> i \<and> i < n \<longrightarrow> mt' ! nat i = i)
          \<and> (\<forall>j. j < nat i0 \<longrightarrow> mt' ! j = mapping_table ! j))"
proof (induction mapping_table n i0 arbitrary: r rule: store_identity.induct)
  case (1 mapping_table n i)
  show ?case
  proof (cases "i < n")
    case False
    with "1.prems" show ?thesis by (subst (asm) store_identity.simps) auto
  next
    case True
    show ?thesis
    proof (cases "arr_store mapping_table i i")
      case (Inl e)
      with "1.prems" True have "r = Inl e" by (subst (asm) store_identity.simps) simp
      moreover from Inl have "e = Undefined" by (simp add: arr_store_def split: if_splits)
      ultimately show ?thesis by simp
    next
      case (Inr m1)
      then have b: "0 \<le> i" "i < int (length mapping_table)" "m1 = mapping_table[nat i := i]"
        by (auto simp: arr_store_def split: if_splits)
      from "1.prems" True Inr have rec: "store_identity m1 n (i + 1) = r"
        by (subst (asm) store_identity.simps) simp
      note ih = "1.IH"[OF True Inr rec]
      show ?thesis
      proof (cases r)
        case (Inl e)
        with ih show ?thesis by simp
      next
        case (Inr mt')
        with ih have l: "length mt' = length m1"
          and u: "\<forall>k. i + 1 \<le> k \<and> k < n \<longrightarrow> mt' ! nat k = k"
          and p: "\<forall>j. j < nat (i + 1) \<longrightarrow> mt' ! j = m1 ! j" by simp_all
        have "mt' ! nat i = i"
        proof -
          have "nat i < nat (i + 1)" using b by simp
          then have "mt' ! nat i = m1 ! nat i" using p by blast
          also have "\<dots> = i" using b by simp
          finally show ?thesis .
        qed
        then have u': "\<forall>k. i \<le> k \<and> k < n \<longrightarrow> mt' ! nat k = k"
          using u by (metis add.commute less_le zless_imp_add1_zle)
        have p': "\<forall>j. j < nat i \<longrightarrow> mt' ! j = mapping_table ! j"
        proof (intro allI impI)
          fix j assume j: "j < nat i"
          then have "j < nat (i + 1)" using b by simp
          then have "mt' ! j = m1 ! j" using p by blast
          also have "\<dots> = mapping_table ! j" using j b by simp
          finally show "mt' ! j = mapping_table ! j" .
        qed
        show ?thesis using Inr l u' p' b by simp
      qed
    qed
  qed
qed

lemma iterative_quiet:
  assumes "get_primitive_lattice_vectors_iterative env cell pure_trans symprec angle_tolerance w
             = (r, w')"
  shows "\<exists>evs. trace w' = trace w @ evs \<and> pure_translation_tolerances evs = []
           \<and> Call_prm_free_primitive \<notin> set evs"
proof -
  obtain ra w1 where a: "mat_alloc_VecDBL (size_VecDBL pure_trans) w = (ra, w1)"
    by (cases "mat_alloc_VecDBL (size_VecDBL pure_trans) w") auto
  have t1: "trace w1 = trace w" using mat_alloc_VecDBL_trace[OF a] .
  show ?thesis
  proof (cases ra)
    case (Inl e)
    with assms a have "w' = w1"
      by (simp add: get_primitive_lattice_vectors_iterative_def)
    with t1 show ?thesis by simp
  next
    case (Inr pure_trans_reduced)
    show ?thesis
    proof (cases "copy_vectors pure_trans_reduced pure_trans (size_VecDBL pure_trans) 0")
      case (Inl e)
      with assms a Inr have "w' = w1"
        by (simp add: get_primitive_lattice_vectors_iterative_def)
      with t1 show ?thesis by simp
    next
      case cp: (Inr pure_trans_reduced')
      with assms a Inr have
        "iterative_attempts env cell angle_tolerance 0 symprec pure_trans_reduced' w1 = (r, w')"
        by (simp add: get_primitive_lattice_vectors_iterative_def)
      from iterative_attempts_trace[OF this] obtain evs where
        "trace w' = trace w1 @ evs" "pure_translation_tolerances evs = []"
        "Call_prm_free_primitive \<notin> set evs"
        by blast
      with t1 show ?thesis by simp
    qed
  qed
qed

lemma get_primitive_cell_quiet:
  assumes "get_primitive_cell env mapping_table cell pure_trans symprec angle_tolerance w = (x, w')"
  shows "\<exists>evs. trace w' = trace w @ evs \<and> pure_translation_tolerances evs = []
           \<and> Call_prm_free_primitive \<notin> set evs"
proof -
  obtain r w1 where i: "get_primitive_lattice_vectors_iterative env cell pure_trans symprec
                          angle_tolerance w = (r, w1)"
    by (cases "get_primitive_lattice_vectors_iterative env cell pure_trans symprec angle_tolerance w")
       auto
  from assms i have "w' = w1"
    by (auto simp: get_primitive_cell_def split: sum.splits prod.splits if_splits option.splits)
  with iterative_quiet[OF i] show ?thesis by simp
qed


lemma found_accepted_trivial:
  assumes "sym_get_pure_translation env cell tol = Some pure_trans"
    and "size_VecDBL pure_trans = 1"
    and "get_cell_with_smallest_lattice env cell tol wa = (Inr c, wb)"
    and "store_identity (mapping_table_prim primitive) (size_cell cell) 0 = Inr mt'"
  shows "accepted_at env cell angle_tolerance tol
           (found cell tol angle_tolerance (primitive\<lparr>mapping_table_prim := mt'\<rparr>) c)"
proof -
  have "\<forall>i. 0 \<le> i \<and> i < size_cell cell \<longrightarrow> mt' ! nat i = i"
    using store_identity_result[OF assms(4)] by simp
  moreover have "size_cell c = size_cell cell"
    using get_cell_with_smallest_lattice_size[OF assms(3)] .
  ultimately show ?thesis
    unfolding accepted_at_def found_def Let_def using assms(1,2,3) by auto
qed

lemma found_accepted_general:
  assumes "sym_get_pure_translation env cell tol = Some pure_trans"
    and "size_VecDBL pure_trans \<noteq> 1"
    and "get_primitive_cell env mt cell pure_trans tol angle_tolerance wa = ((mt', Inr c), wb)"
  shows "accepted_at env cell angle_tolerance tol
           (found cell tol angle_tolerance (primitive\<lparr>mapping_table_prim := mt'\<rparr>) c)"
  unfolding accepted_at_def found_def Let_def using assms by auto

lemma get_primitive_attempts_step:
  assumes lt: "attempt < NUM_ATTEMPT"
    and run: "get_primitive_attempts env cell angle_tolerance primitive attempt tol w = (r, w')"
  shows "\<exists>evs2 w2. trace w2 = trace w @ Call_sym_get_pure_translation tol # evs2
      \<and> pure_translation_tolerances evs2 = [] \<and> Call_prm_free_primitive \<notin> set evs2 \<and>
      ((\<exists>primitive'. get_primitive_attempts env cell angle_tolerance primitive' (attempt + 1)
                         (tol * REDUCE_RATE) w2 = (r, w'))
       \<or> (r = Inl Undefined \<and> w' = w2)
       \<or> (\<exists>p. r = Inr p \<and> w' = w2 \<and> accepted_at env cell angle_tolerance tol p))"
proof -
  let ?w1 = "emit (Call_sym_get_pure_translation tol) w"
  have t1: "trace ?w1 = trace w @ Call_sym_get_pure_translation tol # []" by simp
  show ?thesis
  proof (cases "sym_get_pure_translation env cell tol")
    case None
    with lt run have "get_primitive_attempts env cell angle_tolerance primitive (attempt + 1)
                         (tol * REDUCE_RATE) ?w1 = (r, w')"
      by (subst (asm) get_primitive_attempts.simps) (simp add: Let_def)
    then show ?thesis
      using t1 by (intro exI[of _ "[]"] exI[of _ ?w1]) auto
  next
    case (Some pure_trans)
    show ?thesis
    proof (cases "size_VecDBL pure_trans = 1")
      case one: True
      obtain rc w2 where g: "get_cell_with_smallest_lattice env cell tol ?w1 = (rc, w2)"
        by (cases "get_cell_with_smallest_lattice env cell tol ?w1") auto
      have t2: "trace w2 = trace w @ Call_sym_get_pure_translation tol # []"
        using get_cell_with_smallest_lattice_trace[OF g] by simp
      show ?thesis
      proof (cases rc)
        case (Inr c)
        show ?thesis
        proof (cases "store_identity (mapping_table_prim primitive) (size_cell cell) 0")
          case (Inl e)
          then have "e = Undefined" using store_identity_result[OF Inl] by simp
          with lt run Some one g Inr Inl have "r = Inl Undefined" "w' = w2"
            by (subst (asm) get_primitive_attempts.simps, simp add: Let_def)+
          then show ?thesis
            using t2 by (intro exI[of _ "[]"] exI[of _ w2]) auto
        next
          case si: (Inr mt')
          from lt run Some one g Inr si
          have "r = Inr (found cell tol angle_tolerance (primitive\<lparr>mapping_table_prim := mt'\<rparr>) c)"
            "w' = w2"
            by (subst (asm) get_primitive_attempts.simps, simp add: Let_def)+
          moreover have "accepted_at env cell angle_tolerance tol
             (found cell tol angle_tolerance (primitive\<lparr>mapping_table_prim := mt'\<rparr>) c)"
            using found_accepted_trivial[OF Some one g[unfolded Inr] si] .
          ultimately show ?thesis
            using t2 by (intro exI[of _ "[]"] exI[of _ w2]) auto
        qed
      next
        case (Inl e)
        show ?thesis
        proof (cases e)
          case Undefined
          with lt run Some one g Inl have "r = Inl Undefined" "w' = w2"
            by (subst (asm) get_primitive_attempts.simps, simp add: Let_def)+
          then show ?thesis
            using t2 by (intro exI[of _ "[]"] exI[of _ w2]) auto
        next
          case Null
          with lt run Some one g Inl
          have "get_primitive_attempts env cell angle_tolerance (primitive\<lparr>cell_prim := None\<rparr>)
                  (attempt + 1) (tol * REDUCE_RATE) w2 = (r, w')"
            by (subst (asm) get_primitive_attempts.simps) (simp add: Let_def)
          then show ?thesis
            using t2 by (intro exI[of _ "[]"] exI[of _ w2]) auto
        qed
      qed
    next
      case more: False
      obtain mt' x w2 where g: "get_primitive_cell env (mapping_table_prim primitive) cell pure_trans
                                  tol angle_tolerance ?w1 = ((mt', x), w2)"
        by (cases "get_primitive_cell env (mapping_table_prim primitive) cell pure_trans
                                  tol angle_tolerance ?w1") auto
      from get_primitive_cell_quiet[OF g] obtain evs2 where
        q: "trace w2 = trace ?w1 @ evs2" "pure_translation_tolerances evs2 = []"
           "Call_prm_free_primitive \<notin> set evs2" by blast
      have t2: "trace w2 = trace w @ Call_sym_get_pure_translation tol # evs2"
        using q(1) by simp
      show ?thesis
      proof (cases x)
        case (Inr c)
        from lt run Some more g Inr
        have "r = Inr (found cell tol angle_tolerance (primitive\<lparr>mapping_table_prim := mt'\<rparr>) c)"
          "w' = w2"
          by (subst (asm) get_primitive_attempts.simps, simp add: Let_def)+
        moreover have "accepted_at env cell angle_tolerance tol
             (found cell tol angle_tolerance (primitive\<lparr>mapping_table_prim := mt'\<rparr>) c)"
          using found_accepted_general[OF Some more g[unfolded Inr]] .
        ultimately show ?thesis
          using t2 q(2,3) by (intro exI[of _ evs2] exI[of _ w2]) auto
      next
        case (Inl e)
        show ?thesis
        proof (cases e)
          case Undefined
          with lt run Some more g Inl have "r = Inl Undefined" "w' = w2"
            by (subst (asm) get_primitive_attempts.simps, simp add: Let_def)+
          then show ?thesis
            using t2 q(2,3) by (intro exI[of _ evs2] exI[of _ w2]) auto
        next
          case Null
          with lt run Some more g Inl
          have "get_primitive_attempts env cell angle_tolerance
                  (primitive\<lparr>mapping_table_prim := mt', cell_prim := None\<rparr>)
                  (attempt + 1) (tol * REDUCE_RATE) w2 = (r, w')"
            by (subst (asm) get_primitive_attempts.simps) (simp add: Let_def)
          then show ?thesis
            using t2 q(2,3) by (intro exI[of _ evs2] exI[of _ w2]) auto
        qed
      qed
    qed
  qed
qed


lemma geometric_last:
  assumes "geometric t xs" and "xs \<noteq> []"
  shows "last xs = t * REDUCE_RATE ^ (length xs - 1)"
proof -
  have "last xs = xs ! (length xs - 1)" using assms(2) by (simp add: last_conv_nth)
  also have "\<dots> = map (\<lambda>k. t * REDUCE_RATE ^ k) [0..<length xs] ! (length xs - 1)"
    using assms(1) unfolding geometric_def by simp
  also have "\<dots> = t * REDUCE_RATE ^ (length xs - 1)"
    using assms(2) by simp
  finally show ?thesis .
qed

lemma get_primitive_attempts_trace:
  "get_primitive_attempts env cell angle_tolerance primitive attempt tol w = (r, w') \<Longrightarrow>
   \<exists>evs. trace w' = trace w @ evs
     \<and> geometric tol (pure_translation_tolerances evs)
     \<and> length (pure_translation_tolerances evs) \<le> NUM_ATTEMPT - attempt
     \<and> (case r of
          Inr p \<Rightarrow> pure_translation_tolerances evs \<noteq> []
                   \<and> accepted_at env cell angle_tolerance
                         (last (pure_translation_tolerances evs)) p
                   \<and> Call_prm_free_primitive \<notin> set evs
        | Inl Null \<Rightarrow> length (pure_translation_tolerances evs) = NUM_ATTEMPT - attempt
                   \<and> evs \<noteq> [] \<and> last evs = Call_prm_free_primitive
        | Inl Undefined \<Rightarrow> True)"
proof (induction "NUM_ATTEMPT - attempt" arbitrary: attempt tol primitive w)
  case 0
  then have "\<not> attempt < NUM_ATTEMPT" by simp
  with "0.prems" have "r = Inl Null" "w' = emit Call_prm_free_primitive w"
    by (subst (asm) get_primitive_attempts.simps, simp add: prm_free_primitive_def)+
  with 0 show ?case by (intro exI[of _ "[Call_prm_free_primitive]"]) simp
next
  case (Suc k)
  then have lt: "attempt < NUM_ATTEMPT" by simp
  from get_primitive_attempts_step[OF lt Suc.prems] obtain evs2 w2 where
    t2: "trace w2 = trace w @ Call_sym_get_pure_translation tol # evs2"
    and q: "pure_translation_tolerances evs2 = []" "Call_prm_free_primitive \<notin> set evs2"
    and alt: "(\<exists>primitive'. get_primitive_attempts env cell angle_tolerance primitive' (attempt + 1)
                         (tol * REDUCE_RATE) w2 = (r, w'))
       \<or> (r = Inl Undefined \<and> w' = w2)
       \<or> (\<exists>p. r = Inr p \<and> w' = w2 \<and> accepted_at env cell angle_tolerance tol p)"
    by blast
  let ?evs2 = "Call_sym_get_pure_translation tol # evs2"
  have p2: "pure_translation_tolerances ?evs2 = [tol]" using q by simp
  from alt consider
    (retry) primitive' where "get_primitive_attempts env cell angle_tolerance primitive'
                   (attempt + 1) (tol * REDUCE_RATE) w2 = (r, w')"
    | (undefined) "r = Inl Undefined" "w' = w2"
    | (success) p where "r = Inr p" "w' = w2" "accepted_at env cell angle_tolerance tol p"
    by blast
  then show ?case
  proof cases
    case undefined
    with t2 p2 lt show ?thesis by (intro exI[of _ ?evs2]) simp
  next
    case success
    with t2 p2 q lt show ?thesis by (intro exI[of _ ?evs2]) simp
  next
    case retry
    have k: "k = NUM_ATTEMPT - (attempt + 1)" using Suc.hyps(2) by simp
    from Suc.hyps(1)[OF k retry] obtain evs where
      e: "trace w' = trace w2 @ evs"
         "geometric (tol * REDUCE_RATE) (pure_translation_tolerances evs)"
         "length (pure_translation_tolerances evs) \<le> NUM_ATTEMPT - (attempt + 1)"
         "case r of
            Inr p \<Rightarrow> pure_translation_tolerances evs \<noteq> []
                   \<and> accepted_at env cell angle_tolerance
                         (last (pure_translation_tolerances evs)) p
                   \<and> Call_prm_free_primitive \<notin> set evs
          | Inl Null \<Rightarrow> length (pure_translation_tolerances evs) = NUM_ATTEMPT - (attempt + 1)
                   \<and> evs \<noteq> [] \<and> last evs = Call_prm_free_primitive
          | Inl Undefined \<Rightarrow> True"
      by blast
    let ?all = "?evs2 @ evs"
    have a1: "trace w' = trace w @ ?all" using e(1) t2 by simp
    have pt: "pure_translation_tolerances ?all = tol # pure_translation_tolerances evs"
      using q by simp
    have a2: "geometric tol (pure_translation_tolerances ?all)"
      unfolding pt using e(2) by (rule geometric_Cons)
    have a3: "length (pure_translation_tolerances ?all) \<le> NUM_ATTEMPT - attempt"
      unfolding pt using e(3) lt by simp
    have a4: "case r of
          Inr p \<Rightarrow> pure_translation_tolerances ?all \<noteq> []
                   \<and> accepted_at env cell angle_tolerance
                         (last (pure_translation_tolerances ?all)) p
                   \<and> Call_prm_free_primitive \<notin> set ?all
        | Inl Null \<Rightarrow> length (pure_translation_tolerances ?all) = NUM_ATTEMPT - attempt
                   \<and> ?all \<noteq> [] \<and> last ?all = Call_prm_free_primitive
        | Inl Undefined \<Rightarrow> True"
    proof (cases r)
      case (Inr p)
      with e(4) q show ?thesis unfolding pt by simp
    next
      case (Inl f)
      show ?thesis
      proof (cases f)
        case Undefined
        with Inl show ?thesis by simp
      next
        case Null
        with Inl e(4) lt show ?thesis unfolding pt by simp
      qed
    qed
    show ?thesis
      apply (rule exI[of _ ?all])
      apply (intro conjI)
         apply (fact a1)
        apply (fact a2)
       apply (fact a3)
      apply (fact a4)
      done
  qed
qed

lemma prm_alloc_primitive_result:
  assumes "prm_alloc_primitive n w = (r, w1)"
  shows "trace w1 = trace w \<and> r \<noteq> Inl Undefined \<and> (\<not> fst (malloc w) \<longrightarrow> r = Inl Null)"
proof -
  obtain b1 x1 where m1: "malloc w = (b1, x1)" by (cases "malloc w") auto
  obtain b2 x2 where m2: "malloc x1 = (b2, x2)" by (cases "malloc x1") auto
  obtain b3 x3 where m3: "malloc x2 = (b3, x3)" by (cases "malloc x2") auto
  have t: "trace x1 = trace w" "trace x2 = trace w" "trace x3 = trace w"
    using malloc_trace[OF m1] malloc_trace[OF m2] malloc_trace[OF m3] by simp_all
  show ?thesis
    using assms m1 m2 m3 t unfolding prm_alloc_primitive_def
    by (cases b1; cases b2; cases b3; cases "0 < n") (auto simp: Let_def)
qed

section \<open>No undefined behaviour on well-formed inputs\<close>

lemma store_identity_defined:
  "0 \<le> i \<Longrightarrow> n \<le> int (length mapping_table) \<Longrightarrow>
     \<exists>mt'. store_identity mapping_table n i = Inr mt'"
proof (induction mapping_table n i rule: store_identity.induct)
  case (1 mapping_table n i)
  show ?case
  proof (cases "i < n")
    case False
    then show ?thesis by (subst store_identity.simps) simp
  next
    case True
    with "1.prems" have s: "arr_store mapping_table i i = Inr (mapping_table[nat i := i])"
      by (simp add: arr_store_def)
    have "\<exists>mt'. store_identity (mapping_table[nat i := i]) n (i + 1) = Inr mt'"
      using "1.prems" by (intro "1.IH"[OF True s]) simp_all
    then show ?thesis using True s by (subst store_identity.simps) simp
  qed
qed

lemma mat_alloc_VecDBL_eq:
  "mat_alloc_VecDBL n w =
     (if fst (malloc w) then Inr (replicate (nat n) (0, 0, 0)) else Inl Null, snd (malloc w))"
  by (cases "malloc w") (auto simp: mat_alloc_VecDBL_def)

lemma iterative_attempts_defined:
  assumes "\<forall>v tol angle_tol reduced.
        sym_reduce_pure_translation env cell v tol angle_tol = Some reduced \<longrightarrow> reduced \<noteq> []"
  shows "pure_trans_reduced \<noteq> [] \<Longrightarrow>
     fst (iterative_attempts env cell angle_tolerance attempt tolerance pure_trans_reduced w)
       \<noteq> Inl Undefined"
proof (induction "NUM_ATTEMPT - attempt" arbitrary: attempt tolerance pure_trans_reduced w)
  case 0
  then have "\<not> attempt < NUM_ATTEMPT" by simp
  then show ?case by (subst iterative_attempts.simps) simp
next
  case (Suc k)
  then have lt: "attempt < NUM_ATTEMPT" by simp
  have k: "k = NUM_ATTEMPT - (attempt + 1)" using Suc.hyps(2) by simp
  have l: "1 \<le> length pure_trans_reduced" using Suc.prems by (cases pure_trans_reduced) simp_all
  note c = get_translation_candidates_eq[OF l, of w]
  show ?case
  proof (cases "fst (malloc w)")
    case False
    with lt c show ?thesis by (subst iterative_attempts.simps) (simp add: Let_def)
  next
    case m1: True
    let ?vectors = "tl pure_trans_reduced @ [unit_vector 0, unit_vector 1, unit_vector 2]"
    let ?w2 = "emit (Call_get_primitive_lattice_vectors tolerance) (snd (malloc w))"
    show ?thesis
    proof (cases "get_primitive_lattice_vectors ?vectors cell tolerance")
      case (Some prim_lattice)
      with lt c m1 show ?thesis by (subst iterative_attempts.simps) (simp add: Let_def)
    next
      case None
      show ?thesis
      proof (cases "fst (malloc ?w2)")
        case False
        with lt c m1 None show ?thesis
          by (subst iterative_attempts.simps) (simp add: Let_def mat_alloc_VecDBL_eq)
      next
        case m2: True
        let ?w4 = "emit (Call_sym_reduce_pure_translation tolerance) (snd (malloc ?w2))"
        show ?thesis
        proof (cases "sym_reduce_pure_translation env cell pure_trans_reduced tolerance
                        angle_tolerance")
          case rn: None
          with lt c m1 None m2 show ?thesis
            by (subst iterative_attempts.simps)
               (simp add: Let_def mat_alloc_VecDBL_eq copy_fresh)
        next
          case (Some reduced)
          then have "reduced \<noteq> []" using assms by blast
          from Suc.hyps(1)[OF k this]
          have "fst (iterative_attempts env cell angle_tolerance (attempt + 1)
                       (tolerance * REDUCE_RATE) reduced ?w4) \<noteq> Inl Undefined" .
          with lt c m1 None m2 Some show ?thesis
            by (subst iterative_attempts.simps)
               (simp add: Let_def mat_alloc_VecDBL_eq copy_fresh)
        qed
      qed
    qed
  qed
qed

lemma iterative_defined:
  assumes "\<forall>v tol angle_tol reduced.
        sym_reduce_pure_translation env cell v tol angle_tol = Some reduced \<longrightarrow> reduced \<noteq> []"
    and "pure_trans \<noteq> []"
  shows "fst (get_primitive_lattice_vectors_iterative env cell pure_trans symprec angle_tolerance w)
           \<noteq> Inl Undefined"
  using iterative_attempts_defined[OF assms(1) assms(2)]
  by (simp add: get_primitive_lattice_vectors_iterative_def mat_alloc_VecDBL_eq copy_fresh)

lemma get_primitive_cell_defined:
  assumes "\<forall>v tol angle_tol reduced.
        sym_reduce_pure_translation env cell v tol angle_tol = Some reduced \<longrightarrow> reduced \<noteq> []"
    and "pure_trans \<noteq> []"
    and "\<forall>mapping_table lat tol.
        length (fst (cel_trim_cell env mapping_table lat cell tol)) = length mapping_table"
    and "get_primitive_cell env mapping_table cell pure_trans symprec angle_tolerance w
           = ((mt', x), w')"
  shows "x \<noteq> Inl Undefined \<and> length mt' = length mapping_table"
proof -
  obtain r w1 where i: "get_primitive_lattice_vectors_iterative env cell pure_trans symprec
                          angle_tolerance w = (r, w1)"
    by (cases "get_primitive_lattice_vectors_iterative env cell pure_trans symprec angle_tolerance w")
       auto
  have d: "r \<noteq> Inl Undefined" using iterative_defined[OF assms(1,2), of symprec angle_tolerance w] i
    by simp
  show ?thesis
  proof (cases r)
    case (Inl e)
    with d have "e = Null" by (cases e) auto
    with assms(4) i Inl show ?thesis by (auto simp: get_primitive_cell_def)
  next
    case (Inr pm)
    obtain prim_lat multi where pm: "pm = (prim_lat, multi)" by (cases pm) auto
    show ?thesis
    proof (cases "multi = 0")
      case True
      with assms(4) i Inr pm show ?thesis by (auto simp: get_primitive_cell_def)
    next
      case nz: False
      show ?thesis
      proof (cases "del_delaunay_reduce env prim_lat symprec")
        case None
        with assms(4) i Inr pm nz show ?thesis by (auto simp: get_primitive_cell_def)
      next
        case (Some smallest_lat)
        obtain m2 c2 where t: "cel_trim_cell env mapping_table smallest_lat cell symprec = (m2, c2)"
          by (cases "cel_trim_cell env mapping_table smallest_lat cell symprec") auto
        have "length m2 = length mapping_table"
          using assms(3)[rule_format, of mapping_table smallest_lat symprec] t by simp
        with assms(4) i Inr pm nz Some t show ?thesis
          by (cases c2) (auto simp: get_primitive_cell_def)
      qed
    qed
  qed
qed

lemma get_primitive_attempts_defined:
  assumes "well_formed_inputs env cell"
  shows "size_cell cell \<le> int (length (mapping_table_prim primitive)) \<Longrightarrow>
     fst (get_primitive_attempts env cell angle_tolerance primitive attempt tol w) \<noteq> Inl Undefined"
proof (induction "NUM_ATTEMPT - attempt" arbitrary: attempt tol primitive w)
  case 0
  then have "\<not> attempt < NUM_ATTEMPT" by simp
  then show ?case by (subst get_primitive_attempts.simps) simp
next
  case (Suc k)
  then have lt: "attempt < NUM_ATTEMPT" by simp
  have k: "k = NUM_ATTEMPT - (attempt + 1)" using Suc.hyps(2) by simp
  have wf: "size_cell cell = int (length (types cell))"
    "size_cell cell = int (length (position cell))"
    "\<forall>tol pure_trans. sym_get_pure_translation env cell tol = Some pure_trans \<longrightarrow>
        pure_trans \<noteq> []"
    "\<forall>v tol angle_tol reduced.
        sym_reduce_pure_translation env cell v tol angle_tol = Some reduced \<longrightarrow> reduced \<noteq> []"
    "\<forall>mapping_table lat tol.
        length (fst (cel_trim_cell env mapping_table lat cell tol)) = length mapping_table"
    using assms unfolding well_formed_inputs_def by blast+
  let ?w1 = "emit (Call_sym_get_pure_translation tol) w"
  show ?case
  proof (cases "sym_get_pure_translation env cell tol")
    case None
    from Suc.hyps(1)[OF k Suc.prems]
    have "fst (get_primitive_attempts env cell angle_tolerance primitive (attempt + 1)
                 (tol * REDUCE_RATE) ?w1) \<noteq> Inl Undefined" .
    with lt None show ?thesis by (subst get_primitive_attempts.simps) (simp add: Let_def)
  next
    case (Some pure_trans)
    then have ne: "pure_trans \<noteq> []" using wf(3) by blast
    show ?thesis
    proof (cases "size_VecDBL pure_trans = 1")
      case one: True
      obtain rc w2 where g: "get_cell_with_smallest_lattice env cell tol ?w1 = (rc, w2)"
        by (cases "get_cell_with_smallest_lattice env cell tol ?w1") auto
      have rc: "rc \<noteq> Inl Undefined"
        using g unfolding get_cell_with_smallest_lattice_eq[OF wf(1,2)]
        by (auto split: option.splits if_splits)
      show ?thesis
      proof (cases rc)
        case (Inr c)
        from store_identity_defined[of 0 "size_cell cell" "mapping_table_prim primitive"] Suc.prems
        obtain mt' where "store_identity (mapping_table_prim primitive) (size_cell cell) 0 = Inr mt'"
          by auto
        with lt Some one g Inr show ?thesis
          by (subst get_primitive_attempts.simps) (simp add: Let_def)
      next
        case (Inl e)
        with rc have e: "e = Null" by (cases e) auto
        have "size_cell cell \<le> int (length (mapping_table_prim (primitive\<lparr>cell_prim := None\<rparr>)))"
          using Suc.prems by simp
        from Suc.hyps(1)[OF k this]
        have "fst (get_primitive_attempts env cell angle_tolerance (primitive\<lparr>cell_prim := None\<rparr>)
                 (attempt + 1) (tol * REDUCE_RATE) w2) \<noteq> Inl Undefined" .
        with lt Some one g Inl e show ?thesis
          by (subst get_primitive_attempts.simps) (simp add: Let_def)
      qed
    next
      case more: False
      obtain mt' x w2 where g: "get_primitive_cell env (mapping_table_prim primitive) cell pure_trans
                                  tol angle_tolerance ?w1 = ((mt', x), w2)"
        by (cases "get_primitive_cell env (mapping_table_prim primitive) cell pure_trans
                                  tol angle_tolerance ?w1") auto
      note d = get_primitive_cell_defined[OF wf(4) ne wf(5) g]
      show ?thesis
      proof (cases x)
        case (Inr c)
        with lt Some more g show ?thesis
          by (subst get_primitive_attempts.simps) (simp add: Let_def)
      next
        case (Inl e)
        with d have e: "e = Null" by (cases e) auto
        have "size_cell cell \<le> int (length (mapping_table_prim
                 (primitive\<lparr>mapping_table_prim := mt', cell_prim := None\<rparr>)))"
          using Suc.prems d by simp
        from Suc.hyps(1)[OF k this]
        have "fst (get_primitive_attempts env cell angle_tolerance
                 (primitive\<lparr>mapping_table_prim := mt', cell_prim := None\<rparr>)
                 (attempt + 1) (tol * REDUCE_RATE) w2) \<noteq> Inl Undefined" .
        with lt Some more g Inl e show ?thesis
          by (subst get_primitive_attempts.simps) (simp add: Let_def)
      qed
    qed
  qed
qed

lemma get_primitive_defined:
  assumes "well_formed_inputs env cell"
  shows "fst (get_primitive env cell symprec angle_tolerance w) \<noteq> Inl Undefined"
proof -
  obtain ra w1 where a: "prm_alloc_primitive (size_cell cell) w = (ra, w1)"
    by (cases "prm_alloc_primitive (size_cell cell) w") auto
  note pa = prm_alloc_primitive_result[OF a]
  show ?thesis
  proof (cases ra)
    case (Inl e)
    with pa have "e = Null" by (cases e) auto
    with a Inl show ?thesis by (simp add: get_primitive_def)
  next
    case (Inr primitive)
    have "mapping_table_prim primitive = replicate (nat (size_cell cell)) (- 1)"
      using a Inr unfolding prm_alloc_primitive_def
      by (auto simp: Let_def split: prod.splits bool.splits if_splits)
    then have "size_cell cell \<le> int (length (mapping_table_prim primitive))" by simp
    from get_primitive_attempts_defined[OF assms this] a Inr show ?thesis
      by (simp add: get_primitive_def)
  qed
qed

section \<open>The transform matrix\<close>

lemma mat_multiply_assoc:
  "mat_multiply_matrix_d3 (mat_multiply_matrix_d3 a b) c
     = mat_multiply_matrix_d3 a (mat_multiply_matrix_d3 b c)"
proof -
  obtain a00 a01 a02 a10 a11 a12 a20 a21 a22 where a:
    "a = ((a00, a01, a02), (a10, a11, a12), (a20, a21, a22))" by (metis prod_cases3)
  obtain b00 b01 b02 b10 b11 b12 b20 b21 b22 where b:
    "b = ((b00, b01, b02), (b10, b11, b12), (b20, b21, b22))" by (metis prod_cases3)
  obtain c00 c01 c02 c10 c11 c12 c20 c21 c22 where c:
    "c = ((c00, c01, c02), (c10, c11, c12), (c20, c21, c22))" by (metis prod_cases3)
  show ?thesis unfolding a b c by (simp add: algebra_simps)
qed

lemma mat_inverse_left:
  assumes "mat_get_determinant_d3 a \<noteq> 0"
  shows "mat_multiply_matrix_d3 (mat_inverse_matrix_d3 a) a = ((1, 0, 0), (0, 1, 0), (0, 0, 1))"
proof -
  obtain a00 a01 a02 a10 a11 a12 a20 a21 a22 where a:
    "a = ((a00, a01, a02), (a10, a11, a12), (a20, a21, a22))" by (metis prod_cases3)
  define d where "d = a00 * (a11 * a22 - a12 * a21) + a01 * (a12 * a20 - a10 * a22)
                       + a02 * (a10 * a21 - a11 * a20)"
  have d0: "d \<noteq> 0" using assms unfolding a d_def by simp
  have inv: "mat_inverse_matrix_d3 a =
          (((a11 * a22 - a12 * a21) / d, (a21 * a02 - a22 * a01) / d, (a01 * a12 - a02 * a11) / d),
           ((a12 * a20 - a10 * a22) / d, (a22 * a00 - a20 * a02) / d, (a02 * a10 - a00 * a12) / d),
           ((a10 * a21 - a11 * a20) / d, (a20 * a01 - a21 * a00) / d, (a00 * a11 - a01 * a10) / d))"
    unfolding a d_def by (simp add: Let_def)
  have e00: "(a11 * a22 - a12 * a21) / d * a00 + (a21 * a02 - a22 * a01) / d * a10
               + (a01 * a12 - a02 * a11) / d * a20 = 1"
  proof -
    have "(a11 * a22 - a12 * a21) * a00 + (a21 * a02 - a22 * a01) * a10
               + (a01 * a12 - a02 * a11) * a20 = d"
      unfolding d_def by (simp add: algebra_simps)
    then have "((a11 * a22 - a12 * a21) * a00 + (a21 * a02 - a22 * a01) * a10
               + (a01 * a12 - a02 * a11) * a20) / d = 1" using d0 by simp
    then show ?thesis by (simp add: add_divide_distrib)
  qed
  have e11: "(a12 * a20 - a10 * a22) / d * a01 + (a22 * a00 - a20 * a02) / d * a11
               + (a02 * a10 - a00 * a12) / d * a21 = 1"
  proof -
    have "(a12 * a20 - a10 * a22) * a01 + (a22 * a00 - a20 * a02) * a11
               + (a02 * a10 - a00 * a12) * a21 = d"
      unfolding d_def by (simp add: algebra_simps)
    then have "((a12 * a20 - a10 * a22) * a01 + (a22 * a00 - a20 * a02) * a11
               + (a02 * a10 - a00 * a12) * a21) / d = 1" using d0 by simp
    then show ?thesis by (simp add: add_divide_distrib)
  qed
  have e22: "(a10 * a21 - a11 * a20) / d * a02 + (a20 * a01 - a21 * a00) / d * a12
               + (a00 * a11 - a01 * a10) / d * a22 = 1"
  proof -
    have "(a10 * a21 - a11 * a20) * a02 + (a20 * a01 - a21 * a00) * a12
               + (a00 * a11 - a01 * a10) * a22 = d"
      unfolding d_def by (simp add: algebra_simps)
    then have "((a10 * a21 - a11 * a20) * a02 + (a20 * a01 - a21 * a00) * a12
               + (a00 * a11 - a01 * a10) * a22) / d = 1" using d0 by simp
    then show ?thesis by (simp add: add_divide_distrib)
  qed
  have z: "\<And>x y z :: real. x + y + z = 0 \<Longrightarrow> x / d + y / d + z / d = 0"
    by (simp add: add_divide_distrib[symmetric])
  have e01: "(a11 * a22 - a12 * a21) / d * a01 + (a21 * a02 - a22 * a01) / d * a11
               + (a01 * a12 - a02 * a11) / d * a21 = 0"
    using z[of "(a11 * a22 - a12 * a21) * a01" "(a21 * a02 - a22 * a01) * a11"
            "(a01 * a12 - a02 * a11) * a21"] by (simp add: algebra_simps)
  have e02: "(a11 * a22 - a12 * a21) / d * a02 + (a21 * a02 - a22 * a01) / d * a12
               + (a01 * a12 - a02 * a11) / d * a22 = 0"
    using z[of "(a11 * a22 - a12 * a21) * a02" "(a21 * a02 - a22 * a01) * a12"
            "(a01 * a12 - a02 * a11) * a22"] by (simp add: algebra_simps)
  have e10: "(a12 * a20 - a10 * a22) / d * a00 + (a22 * a00 - a20 * a02) / d * a10
               + (a02 * a10 - a00 * a12) / d * a20 = 0"
    using z[of "(a12 * a20 - a10 * a22) * a00" "(a22 * a00 - a20 * a02) * a10"
            "(a02 * a10 - a00 * a12) * a20"] by (simp add: algebra_simps)
  have e12: "(a12 * a20 - a10 * a22) / d * a02 + (a22 * a00 - a20 * a02) / d * a12
               + (a02 * a10 - a00 * a12) / d * a22 = 0"
    using z[of "(a12 * a20 - a10 * a22) * a02" "(a22 * a00 - a20 * a02) * a12"
            "(a02 * a10 - a00 * a12) * a22"] by (simp add: algebra_simps)
  have e20: "(a10 * a21 - a11 * a20) / d * a00 + (a20 * a01 - a21 * a00) / d * a10
               + (a00 * a11 - a01 * a10) / d * a20 = 0"
    using z[of "(a10 * a21 - a11 * a20) * a00" "(a20 * a01 - a21 * a00) * a10"
            "(a00 * a11 - a01 * a10) * a20"] by (simp add: algebra_simps)
  have e21: "(a10 * a21 - a11 * a20) / d * a01 + (a20 * a01 - a21 * a00) / d * a11
               + (a00 * a11 - a01 * a10) / d * a21 = 0"
    using z[of "(a10 * a21 - a11 * a20) * a01" "(a20 * a01 - a21 * a00) * a11"
            "(a00 * a11 - a01 * a10) * a21"] by (simp add: algebra_simps)
  show ?thesis
    unfolding inv unfolding a mat_multiply_matrix_d3.simps
    by (simp only: e00 e01 e02 e10 e11 e12 e20 e21 e22)
qed

lemma mat_multiply_identity:
  "mat_multiply_matrix_d3 b ((1, 0, 0), (0, 1, 0), (0, 0, 1)) = b"
proof -
  obtain b00 b01 b02 b10 b11 b12 b20 b21 b22 where b:
    "b = ((b00, b01, b02), (b10, b11, b12), (b20, b21, b22))" by (metis prod_cases3)
  show ?thesis unfolding b by simp
qed

lemma transform_times_lattice:
  assumes "mat_get_determinant_d3 a \<noteq> 0"
  shows "mat_multiply_matrix_d3 (mat_multiply_matrix_d3 b (mat_inverse_matrix_d3 a)) a = b"
  unfolding mat_multiply_assoc mat_inverse_left[OF assms] by (rule mat_multiply_identity)


section \<open>What get_primitive returns\<close>

lemma get_primitive_run:
  assumes "get_primitive env cell symprec angle_tolerance w = (r, w')"
  shows "(fst (prm_alloc_primitive (size_cell cell) w) = Inl Null \<and> r = Inl Null
          \<and> trace w' = trace w)
    \<or> ((\<exists>primitive. fst (prm_alloc_primitive (size_cell cell) w) = Inr primitive) \<and>
        (\<exists>evs. trace w' = trace w @ evs
          \<and> geometric symprec (pure_translation_tolerances evs)
          \<and> length (pure_translation_tolerances evs) \<le> NUM_ATTEMPT
          \<and> (case r of
               Inr p \<Rightarrow> pure_translation_tolerances evs \<noteq> []
                   \<and> accepted_at env cell angle_tolerance
                         (last (pure_translation_tolerances evs)) p
                   \<and> Call_prm_free_primitive \<notin> set evs
             | Inl Null \<Rightarrow> length (pure_translation_tolerances evs) = NUM_ATTEMPT
                   \<and> evs \<noteq> [] \<and> last evs = Call_prm_free_primitive
             | Inl Undefined \<Rightarrow> True)))"
proof -
  obtain ra w1 where a: "prm_alloc_primitive (size_cell cell) w = (ra, w1)"
    by (cases "prm_alloc_primitive (size_cell cell) w") auto
  note pa = prm_alloc_primitive_result[OF a]
  show ?thesis
  proof (cases ra)
    case (Inl e)
    with pa have "e = Null" by (cases e) auto
    with assms a Inl pa show ?thesis by (simp add: get_primitive_def)
  next
    case (Inr primitive)
    with assms a have
      "get_primitive_attempts env cell angle_tolerance primitive 0 symprec w1 = (r, w')"
      by (simp add: get_primitive_def)
    from get_primitive_attempts_trace[OF this, unfolded diff_zero] pa a Inr show ?thesis by simp
  qed
qed

lemma REDUCE_RATE_power_le: "REDUCE_RATE ^ k \<le> 1"
  by (simp add: REDUCE_RATE_def power_le_one)

lemma REDUCE_RATE_power_less: "REDUCE_RATE ^ k < 1 \<longleftrightarrow> 0 < k"
proof (cases k)
  case 0
  then show ?thesis by simp
next
  case (Suc j)
  have "REDUCE_RATE ^ Suc j \<le> REDUCE_RATE * 1"
    unfolding power_Suc using REDUCE_RATE_power_le[of j]
    by (intro mult_left_mono) (simp_all add: REDUCE_RATE_def)
  then have "REDUCE_RATE ^ Suc j < 1" by (simp add: REDUCE_RATE_def)
  with Suc show ?thesis by simp
qed

lemma shifted_reduce_any:
  assumes "heap w = []"
  shows "get_cell_with_smallest_lattice retry_env shifted_cell tol w =
     (Inr \<lparr>size_cell = 1, lattice = ((1, 0, 0), (0, 1, 0), (0, 0, 1)), types = [7],
            position = [(3 / 4, 1 / 4, 0)]\<rparr>, w)"
proof -
  have a: "size_cell shifted_cell = int (length (types shifted_cell))"
          "size_cell shifted_cell = int (length (position shifted_cell))"
    by (simp_all add: shifted_cell_def)
  show ?thesis
    unfolding get_cell_with_smallest_lattice_eq[OF a]
    using assms by (simp add: retry_env_def shifted_cell_def malloc_def mat_Dmod1_def Let_def)
qed

lemma store_identity_one: "store_identity [- 1] 1 0 = Inr [0]"
  apply (subst store_identity.simps)
  apply (simp add: arr_store_def)
  apply (subst store_identity.simps)
  apply simp
  done

lemma retry_env_pure_translation:
  "sym_get_pure_translation retry_env c (1 / 100000) = None"
  "sym_get_pure_translation retry_env c (19 / 2000000) = Some [(0, 0, 0)]"
  by (simp_all add: retry_env_def)

lemma retry_run:
  "get_primitive retry_env shifted_cell (1 / 100000) (- 1) world0 =
     (Inr \<lparr>cell_prim = Some \<lparr>size_cell = 1, lattice = ((1, 0, 0), (0, 1, 0), (0, 0, 1)),
                                types = [7], position = [(3 / 4, 1 / 4, 0)]\<rparr>,
            mapping_table_prim = [0],
            size_prim = 1,
            tolerance_prim = 19 / 2000000,
            angle_tolerance_prim = - 1,
            t_mat_prim = ((1, 0, 0), (0, 1, 0), (0, 0, 1))\<rparr>,
      \<lparr>heap = [],
       trace = [Call_sym_get_pure_translation (1 / 100000),
                Call_sym_get_pure_translation (19 / 2000000)]\<rparr>)"
proof -
  have n: "0 < NUM_ATTEMPT" "Suc 0 < NUM_ATTEMPT" by (simp_all add: NUM_ATTEMPT_def)
  let ?prim = "\<lparr>cell_prim = None, mapping_table_prim = [- 1], size_prim = 1,
                tolerance_prim = 0, angle_tolerance_prim = - 1,
                t_mat_prim = ((0, 0, 0), (0, 0, 0), (0, 0, 0))\<rparr>"
  have alloc: "prm_alloc_primitive (size_cell shifted_cell) world0 = (Inr ?prim, world0)"
    by (simp add: prm_alloc_primitive_def malloc_def world0_def shifted_cell_def Let_def)
  let ?w1 = "\<lparr>heap = [], trace = [Call_sym_get_pure_translation (1 / 100000)]\<rparr>"
  have second: "get_primitive_attempts retry_env shifted_cell (- 1) ?prim (Suc 0) (19 / 2000000) ?w1
     = (Inr \<lparr>cell_prim = Some \<lparr>size_cell = 1, lattice = ((1, 0, 0), (0, 1, 0), (0, 0, 1)),
                                types = [7], position = [(3 / 4, 1 / 4, 0)]\<rparr>,
            mapping_table_prim = [0],
            size_prim = 1,
            tolerance_prim = 19 / 2000000,
            angle_tolerance_prim = - 1,
            t_mat_prim = ((1, 0, 0), (0, 1, 0), (0, 0, 1))\<rparr>,
      \<lparr>heap = [],
       trace = [Call_sym_get_pure_translation (1 / 100000),
                Call_sym_get_pure_translation (19 / 2000000)]\<rparr>)"
    apply (subst get_primitive_attempts.simps)
    apply (simp add: n retry_env_pure_translation size_VecDBL_def emit_def shifted_reduce_any Let_def)
    apply (simp add: shifted_cell_def store_identity_one found_def Let_def)
    done
  have first: "get_primitive_attempts retry_env shifted_cell (- 1) ?prim 0 (1 / 100000) world0
     = get_primitive_attempts retry_env shifted_cell (- 1) ?prim (Suc 0) (19 / 2000000) ?w1"
    apply (subst get_primitive_attempts.simps)
    apply (simp add: n retry_env_pure_translation emit_def world0_def REDUCE_RATE_def Let_def)
    done
  show ?thesis
    unfolding get_primitive_def alloc by (simp add: first second)
qed

lemma never_attempts:
  "fst (get_primitive_attempts never_env cell angle_tolerance primitive attempt tol w) = Inl Null"
proof (induction "NUM_ATTEMPT - attempt" arbitrary: attempt tol w)
  case 0
  then have "\<not> attempt < NUM_ATTEMPT" by simp
  then show ?case by (subst get_primitive_attempts.simps) simp
next
  case (Suc k)
  then have lt: "attempt < NUM_ATTEMPT" by simp
  have k: "k = NUM_ATTEMPT - (attempt + 1)" using Suc.hyps(2) by simp
  have "get_primitive_attempts never_env cell angle_tolerance primitive attempt tol w
          = get_primitive_attempts never_env cell angle_tolerance primitive (attempt + 1)
              (tol * REDUCE_RATE) (emit (Call_sym_get_pure_translation tol) w)"
    using lt by (subst get_primitive_attempts.simps) (simp add: never_env_def Let_def)
  then show ?case using Suc.hyps(1)[OF k] by simp
qed

lemma never_run:
  "\<exists>w'. get_primitive never_env shifted_cell (1 / 100000) (- 1) world0 = (Inl Null, w')"
proof -
  let ?prim = "\<lparr>cell_prim = None, mapping_table_prim = [- 1], size_prim = 1,
                tolerance_prim = 0, angle_tolerance_prim = - 1,
                t_mat_prim = ((0, 0, 0), (0, 0, 0), (0, 0, 0))\<rparr>"
  have alloc: "prm_alloc_primitive (size_cell shifted_cell) world0 = (Inr ?prim, world0)"
    by (simp add: prm_alloc_primitive_def malloc_def world0_def shifted_cell_def Let_def)
  obtain r w' where g: "get_primitive_attempts never_env shifted_cell (- 1) ?prim 0 (1 / 100000) world0
                       = (r, w')"
    by (cases "get_primitive_attempts never_env shifted_cell (- 1) ?prim 0 (1 / 100000) world0") auto
  with never_attempts[of shifted_cell "- 1" ?prim 0 "1 / 100000" world0] have "r = Inl Null" by simp
  with g alloc show ?thesis by (simp add: get_primitive_def)
qed


lemma retry_run_named:
  "get_primitive retry_env shifted_cell (1 / 100000) (- 1) world0 = (Inr retry_result, retry_world)"
  using retry_run by (simp add: retry_result_def retry_world_def)

lemma retry_prm_run:
  "prm_get_primitive retry_env shifted_cell (1 / 100000) (- 1) world0 = (Inr retry_result, retry_world)"
  using retry_run_named by (simp add: prm_get_primitive_def)

text \<open>
  C2. \<open>get_primitive\<close> calls \<open>sym_get_pure_translation\<close> at most \<open>NUM_ATTEMPT = 20\<close>
  times, once in every attempt, and the call of attempt \<open>k\<close> (from \<open>0\<close>) is given the
  tolerance \<open>symprec * 0.95^k\<close>. When a record is returned, its tolerance field is the
  tolerance of the last attempt, the one that succeeded; for \<open>symprec \<ge> 0\<close> it is at most
  \<open>symprec\<close>, and for \<open>symprec > 0\<close> it is strictly less than \<open>symprec\<close> exactly when an
  earlier attempt failed.
\<close>

theorem get_primitive_tolerance_schedule:
  assumes "get_primitive env cell symprec angle_tolerance w = (r, w')"
  shows "\<exists>evs n. trace w' = trace w @ evs
     \<and> n \<le> NUM_ATTEMPT \<and> NUM_ATTEMPT = 20 \<and> REDUCE_RATE = 95 / 100
     \<and> pure_translation_tolerances evs = map (\<lambda>k. symprec * REDUCE_RATE ^ k) [0..<n]
     \<and> (\<forall>p. r = Inr p \<longrightarrow>
           1 \<le> n
           \<and> tolerance_prim p = symprec * REDUCE_RATE ^ (n - 1)
           \<and> tolerance_prim p = last (pure_translation_tolerances evs)
           \<and> (0 \<le> symprec \<longrightarrow> tolerance_prim p \<le> symprec)
           \<and> (0 < symprec \<longrightarrow> (tolerance_prim p < symprec \<longleftrightarrow> 1 < n)))"
proof -
  have cvals: "NUM_ATTEMPT = 20" "REDUCE_RATE = 95 / 100"
    by (simp_all add: NUM_ATTEMPT_def REDUCE_RATE_def)
  from get_primitive_run[OF assms] consider
    (alloc) "r = Inl Null" "trace w' = trace w"
    | (loop) evs where "trace w' = trace w @ evs"
        "geometric symprec (pure_translation_tolerances evs)"
        "length (pure_translation_tolerances evs) \<le> NUM_ATTEMPT"
        "case r of
               Inr p \<Rightarrow> pure_translation_tolerances evs \<noteq> []
                   \<and> accepted_at env cell angle_tolerance
                         (last (pure_translation_tolerances evs)) p
                   \<and> Call_prm_free_primitive \<notin> set evs
             | Inl Null \<Rightarrow> length (pure_translation_tolerances evs) = NUM_ATTEMPT
                   \<and> evs \<noteq> [] \<and> last evs = Call_prm_free_primitive
             | Inl Undefined \<Rightarrow> True"
    by blast
  then show ?thesis
  proof cases
    case alloc
    show ?thesis
      apply (rule exI[of _ "[]"])
      apply (rule exI[of _ 0])
      using alloc cvals by simp
  next
    case loop
    let ?ts = "pure_translation_tolerances evs"
    let ?n = "length ?ts"
    have g: "?ts = map (\<lambda>k. symprec * REDUCE_RATE ^ k) [0..<?n]"
      using loop(2) unfolding geometric_def .
    have rest: "\<forall>p. r = Inr p \<longrightarrow>
           1 \<le> ?n
           \<and> tolerance_prim p = symprec * REDUCE_RATE ^ (?n - 1)
           \<and> tolerance_prim p = last ?ts
           \<and> (0 \<le> symprec \<longrightarrow> tolerance_prim p \<le> symprec)
           \<and> (0 < symprec \<longrightarrow> (tolerance_prim p < symprec \<longleftrightarrow> 1 < ?n))"
    proof (intro allI impI)
      fix p assume rp: "r = Inr p"
      with loop(4) have ne: "?ts \<noteq> []"
        and acc: "accepted_at env cell angle_tolerance (last ?ts) p" by simp_all
      have n1: "1 \<le> ?n" using ne by (cases ?ts) simp_all
      have tl: "tolerance_prim p = last ?ts" using acc unfolding accepted_at_def by simp
      have tp: "tolerance_prim p = symprec * REDUCE_RATE ^ (?n - 1)"
        unfolding tl using geometric_last[OF loop(2) ne] .
      have le: "0 \<le> symprec \<longrightarrow> tolerance_prim p \<le> symprec"
      proof
        assume "0 \<le> symprec"
        then have "symprec * REDUCE_RATE ^ (?n - 1) \<le> symprec * 1"
          by (intro mult_left_mono REDUCE_RATE_power_le)
        then show "tolerance_prim p \<le> symprec" unfolding tp by simp
      qed
      have less: "0 < symprec \<longrightarrow> (tolerance_prim p < symprec \<longleftrightarrow> 1 < ?n)"
      proof
        assume pos: "0 < symprec"
        have "symprec * REDUCE_RATE ^ (?n - 1) < symprec * 1 \<longleftrightarrow> REDUCE_RATE ^ (?n - 1) < 1"
          using pos by (simp only: mult_less_cancel_left_pos)
        also have "\<dots> \<longleftrightarrow> 0 < ?n - 1" by (rule REDUCE_RATE_power_less)
        also have "\<dots> \<longleftrightarrow> 1 < ?n" by auto
        finally show "tolerance_prim p < symprec \<longleftrightarrow> 1 < ?n" unfolding tp by simp
      qed
      show "1 \<le> ?n
           \<and> tolerance_prim p = symprec * REDUCE_RATE ^ (?n - 1)
           \<and> tolerance_prim p = last ?ts
           \<and> (0 \<le> symprec \<longrightarrow> tolerance_prim p \<le> symprec)
           \<and> (0 < symprec \<longrightarrow> (tolerance_prim p < symprec \<longleftrightarrow> 1 < ?n))"
        using n1 tp tl le less by blast
    qed
    show ?thesis
      apply (rule exI[of _ evs])
      apply (rule exI[of _ ?n])
      apply (intro conjI)
           apply (fact loop(1))
          apply (fact loop(3))
         apply (fact cvals(1))
        apply (fact cvals(2))
       apply (fact g)
      apply (fact rest)
      done
  qed
qed

theorem get_primitive_tolerance_schedule_witness:
  "\<exists>evs n. trace retry_world = trace world0 @ evs
     \<and> n \<le> NUM_ATTEMPT \<and> NUM_ATTEMPT = 20 \<and> REDUCE_RATE = 95 / 100
     \<and> pure_translation_tolerances evs = map (\<lambda>k. 1 / 100000 * REDUCE_RATE ^ k) [0..<n]
     \<and> (\<forall>p. Inr retry_result = (Inr p :: failure + Primitive) \<longrightarrow>
           1 \<le> n
           \<and> tolerance_prim p = 1 / 100000 * REDUCE_RATE ^ (n - 1)
           \<and> tolerance_prim p = last (pure_translation_tolerances evs)
           \<and> (0 \<le> (1 / 100000 :: real) \<longrightarrow> tolerance_prim p \<le> 1 / 100000)
           \<and> (0 < (1 / 100000 :: real) \<longrightarrow> (tolerance_prim p < 1 / 100000 \<longleftrightarrow> 1 < n)))"
  using get_primitive_tolerance_schedule[OF retry_run_named] .

text \<open>
  C3. When \<open>prm_get_primitive\<close> returns a record, its matrix \<open>t_mat\<close> is the lattice
  of the returned cell multiplied by the inverse of the lattice of the input cell; for
  an input lattice with a determinant other than zero, \<open>t_mat\<close> multiplied by the
  input lattice is the lattice of the returned cell.
\<close>

theorem transform_maps_lattice:
  assumes "prm_get_primitive env cell symprec angle_tolerance w = (Inr p, w')"
    and "mat_get_determinant_d3 (lattice cell) \<noteq> 0"
  shows "\<exists>c. cell_prim p = Some c
     \<and> t_mat_prim p = mat_multiply_matrix_d3 (lattice c) (mat_inverse_matrix_d3 (lattice cell))
     \<and> mat_multiply_matrix_d3 (t_mat_prim p) (lattice cell) = lattice c"
proof -
  from assms(1) have g: "get_primitive env cell symprec angle_tolerance w = (Inr p, w')"
    by (simp add: prm_get_primitive_def)
  from get_primitive_run[OF g] obtain tol where "accepted_at env cell angle_tolerance tol p"
    by auto
  then obtain c where c: "cell_prim p = Some c"
    "t_mat_prim p = mat_multiply_matrix_d3 (lattice c) (mat_inverse_matrix_d3 (lattice cell))"
    unfolding accepted_at_def by blast
  have "mat_multiply_matrix_d3 (t_mat_prim p) (lattice cell) = lattice c"
    unfolding c(2) using assms(2) by (rule transform_times_lattice)
  with c show ?thesis by blast
qed

theorem transform_maps_lattice_witness:
  "\<exists>c. cell_prim retry_result = Some c
     \<and> t_mat_prim retry_result
         = mat_multiply_matrix_d3 (lattice c) (mat_inverse_matrix_d3 (lattice shifted_cell))
     \<and> mat_multiply_matrix_d3 (t_mat_prim retry_result) (lattice shifted_cell) = lattice c"
proof -
  have d: "mat_get_determinant_d3 (lattice shifted_cell) \<noteq> 0"
    by (simp add: shifted_cell_def)
  show ?thesis using transform_maps_lattice[OF retry_prm_run d] .
qed

text \<open>
  C5. When \<open>prm_get_primitive\<close> returns a record and the translation list found at the
  tolerance of the record has exactly one member, the cell of the record comes from
  \<open>get_cell_with_smallest_lattice\<close>, it has the atom count of the input cell, and the
  mapping table holds \<open>i\<close> at every index \<open>0 \<le> i < size\<close>.
\<close>

theorem trivial_group_identity_mapping:
  assumes "prm_get_primitive env cell symprec angle_tolerance w = (Inr p, w')"
    and "sym_get_pure_translation env cell (tolerance_prim p) = Some pure_trans"
    and "size_VecDBL pure_trans = 1"
  shows "\<exists>c. cell_prim p = Some c
     \<and> size_cell c = size_cell cell
     \<and> (\<exists>wa wb. get_cell_with_smallest_lattice env cell (tolerance_prim p) wa = (Inr c, wb))
     \<and> (\<forall>i. 0 \<le> i \<and> i < size_cell cell \<longrightarrow> mapping_table_prim p ! nat i = i)"
proof -
  from assms(1) have g: "get_primitive env cell symprec angle_tolerance w = (Inr p, w')"
    by (simp add: prm_get_primitive_def)
  from get_primitive_run[OF g] obtain tol where a: "accepted_at env cell angle_tolerance tol p"
    by auto
  then have t: "tolerance_prim p = tol" unfolding accepted_at_def by simp
  from a assms(2,3) show ?thesis unfolding accepted_at_def t by auto
qed

theorem trivial_group_identity_mapping_witness:
  "\<exists>c. cell_prim retry_result = Some c
     \<and> size_cell c = size_cell shifted_cell
     \<and> (\<exists>wa wb. get_cell_with_smallest_lattice retry_env shifted_cell
                     (tolerance_prim retry_result) wa = (Inr c, wb))
     \<and> (\<forall>i. 0 \<le> i \<and> i < size_cell shifted_cell \<longrightarrow>
            mapping_table_prim retry_result ! nat i = i)"
proof -
  have a: "sym_get_pure_translation retry_env shifted_cell (tolerance_prim retry_result)
             = Some [(0, 0, 0)]"
    by (simp add: retry_result_def retry_env_def)
  have b: "size_VecDBL [(0, 0, 0)] = 1" by (simp add: size_VecDBL_def)
  show ?thesis using trivial_group_identity_mapping[OF retry_prm_run a b] .
qed

lemma retry_well_formed: "well_formed_inputs retry_env shifted_cell"
  by (simp add: well_formed_inputs_def retry_env_def shifted_cell_def)

lemma failed_alloc_run:
  "prm_get_primitive retry_env shifted_cell (1 / 100000) (- 1) \<lparr>heap = [False], trace = []\<rparr>
     = (Inl Null, world0)"
  by (simp add: prm_get_primitive_def get_primitive_def prm_alloc_primitive_def malloc_def
        world0_def)

lemma prm_alloc_primitive_eq:
  "fst (prm_alloc_primitive n w) =
     (if False \<in> set (take (if 0 < n then 3 else 2) (heap w)) then Inl Null
      else Inr \<lparr>cell_prim = None, mapping_table_prim = replicate (nat n) (- 1), size_prim = n,
                tolerance_prim = 0, angle_tolerance_prim = - 1,
                t_mat_prim = ((0, 0, 0), (0, 0, 0), (0, 0, 0))\<rparr>)"
proof (cases "heap w")
  case Nil
  then show ?thesis by (simp add: prm_alloc_primitive_def malloc_def Let_def)
next
  case c1: (Cons b1 h1)
  show ?thesis
  proof (cases h1)
    case Nil
    with c1 show ?thesis by (cases b1) (simp_all add: prm_alloc_primitive_def malloc_def Let_def)
  next
    case c2: (Cons b2 h2)
    show ?thesis
    proof (cases h2)
      case Nil
      with c1 c2 show ?thesis
        by (cases b1; cases b2) (simp_all add: prm_alloc_primitive_def malloc_def Let_def)
    next
      case c3: (Cons b3 h3)
      with c1 c2 show ?thesis
        by (cases b1; cases b2; cases b3) (simp_all add: prm_alloc_primitive_def malloc_def Let_def)
    qed
  qed
qed

lemma get_primitive_cell_provenance:
  assumes "get_primitive_cell env mt cell pure_trans tol angle_tolerance wa = ((mt', Inr c), wb)"
  shows "\<exists>prim_lat multi smallest_lat.
           get_primitive_lattice_vectors_iterative env cell pure_trans tol angle_tolerance wa
             = (Inr (prim_lat, multi), wb)
           \<and> multi \<noteq> 0
           \<and> del_delaunay_reduce env prim_lat tol = Some smallest_lat
           \<and> cel_trim_cell env mt smallest_lat cell tol = (mt', Some c)"
proof -
  obtain r w1 where i: "get_primitive_lattice_vectors_iterative env cell pure_trans tol
                          angle_tolerance wa = (r, w1)"
    by (cases "get_primitive_lattice_vectors_iterative env cell pure_trans tol angle_tolerance wa")
       auto
  show ?thesis
  proof (cases r)
    case (Inl e)
    with assms i show ?thesis by (simp add: get_primitive_cell_def)
  next
    case (Inr pm)
    obtain prim_lat multi where pm: "pm = (prim_lat, multi)" by (cases pm) auto
    show ?thesis
    proof (cases "multi = 0")
      case True
      with assms i Inr pm show ?thesis by (simp add: get_primitive_cell_def)
    next
      case nz: False
      show ?thesis
      proof (cases "del_delaunay_reduce env prim_lat tol")
        case None
        with assms i Inr pm nz show ?thesis by (simp add: get_primitive_cell_def)
      next
        case (Some smallest_lat)
        obtain m2 c2 where t: "cel_trim_cell env mt smallest_lat cell tol = (m2, c2)"
          by (cases "cel_trim_cell env mt smallest_lat cell tol") auto
        from assms i Inr pm nz Some t have e: "m2 = mt'" "c2 = Some c" "w1 = wb"
          by (cases c2; simp add: get_primitive_cell_def)+
        show ?thesis
          apply (rule exI[of _ prim_lat])
          apply (rule exI[of _ multi])
          apply (rule exI[of _ smallest_lat])
          using i Inr pm nz Some t e by simp
      qed
    qed
  qed
qed

lemma get_primitive_cell_length:
  assumes "\<forall>mapping_table lat tol.
        length (fst (cel_trim_cell env mapping_table lat cell tol)) = length mapping_table"
    and "get_primitive_cell env mt cell pure_trans tol angle_tolerance wa = ((mt', x), wb)"
  shows "length mt' = length mt"
proof -
  obtain r w1 where i: "get_primitive_lattice_vectors_iterative env cell pure_trans tol
                          angle_tolerance wa = (r, w1)"
    by (cases "get_primitive_lattice_vectors_iterative env cell pure_trans tol angle_tolerance wa")
       auto
  show ?thesis
  proof (cases r)
    case (Inl e)
    with assms(2) i show ?thesis by (simp add: get_primitive_cell_def)
  next
    case (Inr pm)
    obtain prim_lat multi where pm: "pm = (prim_lat, multi)" by (cases pm) auto
    show ?thesis
    proof (cases "multi = 0")
      case True
      with assms(2) i Inr pm show ?thesis by (simp add: get_primitive_cell_def)
    next
      case nz: False
      show ?thesis
      proof (cases "del_delaunay_reduce env prim_lat tol")
        case None
        with assms(2) i Inr pm nz show ?thesis by (simp add: get_primitive_cell_def)
      next
        case (Some smallest_lat)
        obtain m2 c2 where t: "cel_trim_cell env mt smallest_lat cell tol = (m2, c2)"
          by (cases "cel_trim_cell env mt smallest_lat cell tol") auto
        have "length m2 = length mt"
          using assms(1)[rule_format, of mt smallest_lat tol] t by simp
        with assms(2) i Inr pm nz Some t show ?thesis
          by (cases c2) (auto simp: get_primitive_cell_def)
      qed
    qed
  qed
qed

lemma get_primitive_attempts_frame:
  "get_primitive_attempts env cell angle_tolerance primitive attempt tol w = (Inr p, w') \<Longrightarrow>
     size_prim p = size_prim primitive
     \<and> ((\<forall>mapping_table lat tol.
           length (fst (cel_trim_cell env mapping_table lat cell tol)) = length mapping_table)
        \<longrightarrow> length (mapping_table_prim p) = length (mapping_table_prim primitive))"
proof (induction "NUM_ATTEMPT - attempt" arbitrary: attempt tol primitive w)
  case 0
  then have "\<not> attempt < NUM_ATTEMPT" by simp
  with "0.prems" show ?case by (subst (asm) get_primitive_attempts.simps) simp
next
  case (Suc k)
  then have lt: "attempt < NUM_ATTEMPT" by simp
  have k: "k = NUM_ATTEMPT - (attempt + 1)" using Suc.hyps(2) by simp
  note run = Suc.prems
  let ?w1 = "emit (Call_sym_get_pure_translation tol) w"
  show ?case
  proof (cases "sym_get_pure_translation env cell tol")
    case None
    with lt run have "get_primitive_attempts env cell angle_tolerance primitive (attempt + 1)
                         (tol * REDUCE_RATE) ?w1 = (Inr p, w')"
      by (subst (asm) get_primitive_attempts.simps) (simp add: Let_def)
    from Suc.hyps(1)[OF k this] show ?thesis .
  next
    case (Some pure_trans)
    show ?thesis
    proof (cases "size_VecDBL pure_trans = 1")
      case one: True
      obtain rc w2 where g: "get_cell_with_smallest_lattice env cell tol ?w1 = (rc, w2)"
        by (cases "get_cell_with_smallest_lattice env cell tol ?w1") auto
      show ?thesis
      proof (cases rc)
        case (Inr c)
        show ?thesis
        proof (cases "store_identity (mapping_table_prim primitive) (size_cell cell) 0")
          case (Inl e)
          with lt run Some one g Inr show ?thesis
            by (subst (asm) get_primitive_attempts.simps) (simp add: Let_def)
        next
          case si: (Inr mt')
          from lt run Some one g Inr si
          have p: "p = found cell tol angle_tolerance (primitive\<lparr>mapping_table_prim := mt'\<rparr>) c"
            by (subst (asm) get_primitive_attempts.simps) (simp add: Let_def)
          have "length mt' = length (mapping_table_prim primitive)"
            using store_identity_result[OF si] by simp
          then show ?thesis unfolding p found_def Let_def by simp
        qed
      next
        case (Inl e)
        show ?thesis
        proof (cases e)
          case Undefined
          with lt run Some one g Inl show ?thesis
            by (subst (asm) get_primitive_attempts.simps) (simp add: Let_def)
        next
          case Null
          with lt run Some one g Inl
          have "get_primitive_attempts env cell angle_tolerance (primitive\<lparr>cell_prim := None\<rparr>)
                  (attempt + 1) (tol * REDUCE_RATE) w2 = (Inr p, w')"
            by (subst (asm) get_primitive_attempts.simps) (simp add: Let_def)
          from Suc.hyps(1)[OF k this] show ?thesis by simp
        qed
      qed
    next
      case more: False
      obtain mt' x w2 where g: "get_primitive_cell env (mapping_table_prim primitive) cell pure_trans
                                  tol angle_tolerance ?w1 = ((mt', x), w2)"
        by (cases "get_primitive_cell env (mapping_table_prim primitive) cell pure_trans
                                  tol angle_tolerance ?w1") auto
      have len: "(\<forall>mapping_table lat tol.
           length (fst (cel_trim_cell env mapping_table lat cell tol)) = length mapping_table)
        \<longrightarrow> length mt' = length (mapping_table_prim primitive)"
        using get_primitive_cell_length[OF _ g] by blast
      show ?thesis
      proof (cases x)
        case (Inr c)
        from lt run Some more g Inr
        have p: "p = found cell tol angle_tolerance (primitive\<lparr>mapping_table_prim := mt'\<rparr>) c"
          by (subst (asm) get_primitive_attempts.simps) (simp add: Let_def)
        show ?thesis unfolding p found_def Let_def using len by simp
      next
        case (Inl e)
        show ?thesis
        proof (cases e)
          case Undefined
          with lt run Some more g Inl show ?thesis
            by (subst (asm) get_primitive_attempts.simps) (simp add: Let_def)
        next
          case Null
          with lt run Some more g Inl
          have "get_primitive_attempts env cell angle_tolerance
                  (primitive\<lparr>mapping_table_prim := mt', cell_prim := None\<rparr>)
                  (attempt + 1) (tol * REDUCE_RATE) w2 = (Inr p, w')"
            by (subst (asm) get_primitive_attempts.simps) (simp add: Let_def)
          from Suc.hyps(1)[OF k this] len show ?thesis by simp
        qed
      qed
    qed
  qed
qed

lemma get_primitive_attempts_first_call:
  assumes "attempt < NUM_ATTEMPT"
    and "get_primitive_attempts env cell angle_tolerance primitive attempt tol w = (r, w')"
  shows "\<exists>evs. trace w' = trace w @ Call_sym_get_pure_translation tol # evs"
proof -
  from get_primitive_attempts_step[OF assms] obtain evs2 w2 where
    t2: "trace w2 = trace w @ Call_sym_get_pure_translation tol # evs2"
    and alt: "(\<exists>primitive'. get_primitive_attempts env cell angle_tolerance primitive' (attempt + 1)
                         (tol * REDUCE_RATE) w2 = (r, w'))
       \<or> (r = Inl Undefined \<and> w' = w2)
       \<or> (\<exists>p. r = Inr p \<and> w' = w2 \<and> accepted_at env cell angle_tolerance tol p)"
    by blast
  from alt consider
    (retry) primitive' where "get_primitive_attempts env cell angle_tolerance primitive'
                   (attempt + 1) (tol * REDUCE_RATE) w2 = (r, w')"
    | (stop) "w' = w2"
    by blast
  then show ?thesis
  proof cases
    case stop
    with t2 show ?thesis by blast
  next
    case retry
    from get_primitive_attempts_trace[OF retry] obtain evs where "trace w' = trace w2 @ evs"
      by blast
    with t2 have "trace w' = trace w @ Call_sym_get_pure_translation tol # (evs2 @ evs)" by simp
    then show ?thesis by blast
  qed
qed

lemma get_primitive_started:
  assumes "get_primitive env cell symprec angle_tolerance w = (r, w')"
    and "False \<notin> set (take (if 0 < size_cell cell then 3 else 2) (heap w))"
  shows "(\<exists>evs. trace w' = trace w @ Call_sym_get_pure_translation symprec # evs)
     \<and> (\<forall>p. r = Inr p \<longrightarrow> size_prim p = size_cell cell
           \<and> ((\<forall>mapping_table lat tol.
                 length (fst (cel_trim_cell env mapping_table lat cell tol)) = length mapping_table)
               \<longrightarrow> length (mapping_table_prim p) = nat (size_cell cell)))"
proof -
  obtain ra w1 where a: "prm_alloc_primitive (size_cell cell) w = (ra, w1)"
    by (cases "prm_alloc_primitive (size_cell cell) w") auto
  let ?prim = "\<lparr>cell_prim = None, mapping_table_prim = replicate (nat (size_cell cell)) (- 1),
                size_prim = size_cell cell, tolerance_prim = 0, angle_tolerance_prim = - 1,
                t_mat_prim = ((0, 0, 0), (0, 0, 0), (0, 0, 0))\<rparr>"
  have ra: "ra = Inr ?prim"
    using prm_alloc_primitive_eq[of "size_cell cell" w] a assms(2) by simp
  have t1: "trace w1 = trace w" using prm_alloc_primitive_result[OF a] by simp
  from assms(1) a ra have
    run: "get_primitive_attempts env cell angle_tolerance ?prim 0 symprec w1 = (r, w')"
    by (simp add: get_primitive_def)
  have lt: "0 < NUM_ATTEMPT" by (simp add: NUM_ATTEMPT_def)
  from get_primitive_attempts_first_call[OF lt run] t1
  have first: "\<exists>evs. trace w' = trace w @ Call_sym_get_pure_translation symprec # evs" by simp
  have second: "\<forall>p. r = Inr p \<longrightarrow> size_prim p = size_cell cell
           \<and> ((\<forall>mapping_table lat tol.
                 length (fst (cel_trim_cell env mapping_table lat cell tol)) = length mapping_table)
               \<longrightarrow> length (mapping_table_prim p) = nat (size_cell cell))"
  proof (intro allI impI)
    fix p assume "r = Inr p"
    with run have "get_primitive_attempts env cell angle_tolerance ?prim 0 symprec w1 = (Inr p, w')"
      by simp
    from get_primitive_attempts_frame[OF this]
    show "size_prim p = size_cell cell
           \<and> ((\<forall>mapping_table lat tol.
                 length (fst (cel_trim_cell env mapping_table lat cell tol)) = length mapping_table)
               \<longrightarrow> length (mapping_table_prim p) = nat (size_cell cell))"
      by simp
  qed
  from first second show ?thesis ..
qed

lemma get_primitive_not_started:
  assumes "get_primitive env cell symprec angle_tolerance w = (r, w')"
    and "False \<in> set (take (if 0 < size_cell cell then 3 else 2) (heap w))"
  shows "r = Inl Null \<and> trace w' = trace w"
proof -
  obtain ra w1 where a: "prm_alloc_primitive (size_cell cell) w = (ra, w1)"
    by (cases "prm_alloc_primitive (size_cell cell) w") auto
  have ra: "ra = Inl Null"
    using prm_alloc_primitive_eq[of "size_cell cell" w] a assms(2) by simp
  have t1: "trace w1 = trace w" using prm_alloc_primitive_result[OF a] by simp
  from assms(1) a ra t1 show ?thesis by (auto simp: get_primitive_def)
qed

lemma noisy_lattice_vectors:
  "get_primitive_lattice_vectors noisy_vectors noisy_cell (1 / 100000)
       = Some ((1 / 2, 1, 0), (1 / 2, 0, 1), (1 / 2, 0, 0))"
proof -
  have l: "size_VecDBL noisy_vectors = 4" by (simp add: noisy_vectors_def size_VecDBL_def)
  show ?thesis
    unfolding get_primitive_lattice_vectors_Some[OF noisy_search] Let_def
      noisy_raw noisy_inverse noisy_rounded l
    by (simp add: noisy_cleaned noisy_cell_def del: mat_inverse_matrix_d3.simps mat_cast_matrix_3i_to_3d.simps)
qed

lemma trim_iterative:
  assumes "heap w = []"
  shows "get_primitive_lattice_vectors_iterative trim_env noisy_cell noisy_pure_trans
           (1 / 100000) (- 1) w
         = (Inr (((1 / 2, 1, 0), (1 / 2, 0, 1), (1 / 2, 0, 0)), 2),
            emit (Call_get_primitive_lattice_vectors (1 / 100000)) w)"
proof -
  have m: "malloc w = (True, w)" using assms by (simp add: malloc_def)
  have a: "1 \<le> length noisy_pure_trans" by (simp add: noisy_pure_trans_def)
  have n: "0 < NUM_ATTEMPT" by (simp add: NUM_ATTEMPT_def)
  have f: "fst (malloc w)" using m by simp
  have v: "tl noisy_pure_trans @ [unit_vector 0, unit_vector 1, unit_vector 2] = noisy_vectors"
    by (simp add: noisy_pure_trans_def noisy_vectors_def unit_vectors)
  have g: "get_primitive_lattice_vectors
             (tl noisy_pure_trans @ [unit_vector 0, unit_vector 1, unit_vector 2]) noisy_cell
             (1 / 100000)
           = Some ((1 / 2, 1, 0), (1 / 2, 0, 1), (1 / 2, 0, 0))"
    unfolding v by (rule noisy_lattice_vectors)
  have s: "size_VecDBL noisy_pure_trans = 2" by (simp add: noisy_pure_trans_def size_VecDBL_def)
  note it = iterative_attempts_found[OF a n f g, of trim_env "- 1"]
  have cf: "copy_vectors (replicate 2 (0, 0, 0)) noisy_pure_trans 2 0 = Inr noisy_pure_trans"
    using copy_fresh[of noisy_pure_trans] unfolding s by simp
  show ?thesis
    unfolding get_primitive_lattice_vectors_iterative_def Let_def mat_alloc_VecDBL_eq
    using m it by (simp add: cf s)
qed

lemma trim_run:
  "get_primitive trim_env noisy_cell (1 / 100000) (- 1) world0 = (Inr trim_result, trim_world)"
proof -
  have n: "0 < NUM_ATTEMPT" by (simp add: NUM_ATTEMPT_def)
  let ?prim = "\<lparr>cell_prim = None, mapping_table_prim = [- 1, - 1], size_prim = 2,
                tolerance_prim = 0, angle_tolerance_prim = - 1,
                t_mat_prim = ((0, 0, 0), (0, 0, 0), (0, 0, 0))\<rparr>"
  have alloc: "prm_alloc_primitive (size_cell noisy_cell) world0 = (Inr ?prim, world0)"
    by (simp add: prm_alloc_primitive_def malloc_def world0_def noisy_cell_def Let_def
          numeral_2_eq_2)
  let ?w1 = "emit (Call_sym_get_pure_translation (1 / 100000)) world0"
  have h: "heap ?w1 = []" by (simp add: emit_def world0_def)
  let ?c = "\<lparr>size_cell = 1, lattice = ((1 / 2, 1, 0), (1 / 2, 0, 1), (1 / 2, 0, 0)),
              types = [1], position = [(0, 0, 0)]\<rparr>"
  have cell: "get_primitive_cell trim_env [- 1, - 1] noisy_cell noisy_pure_trans (1 / 100000) (- 1) ?w1
     = (([0, 0], Inr ?c), emit (Call_get_primitive_lattice_vectors (1 / 100000)) ?w1)"
    unfolding get_primitive_cell_def trim_iterative[OF h]
    by (simp add: trim_env_def)
  have s: "size_VecDBL noisy_pure_trans = 2" by (simp add: noisy_pure_trans_def size_VecDBL_def)
  have p: "sym_get_pure_translation trim_env noisy_cell (1 / 100000) = Some noisy_pure_trans"
    by (simp add: trim_env_def)
  have "get_primitive_attempts trim_env noisy_cell (- 1) ?prim 0 (1 / 100000) world0
     = (Inr trim_result, trim_world)"
    apply (subst get_primitive_attempts.simps)
    apply (simp only: n if_True Let_def p option.case s)
    apply (simp add: cell)
    apply (simp add: found_def Let_def trim_result_def trim_world_def emit_def world0_def
             noisy_cell_def)
    done
  then show ?thesis unfolding get_primitive_def alloc by simp
qed

lemma trim_prm_run:
  "prm_get_primitive trim_env noisy_cell (1 / 100000) (- 1) world0 = (Inr trim_result, trim_world)"
  using trim_run by (simp add: prm_get_primitive_def)

lemma trim_well_formed: "well_formed_inputs trim_env noisy_cell"
  by (simp add: well_formed_inputs_def trim_env_def noisy_cell_def noisy_pure_trans_def)

lemma failed_second_alloc_run:
  "prm_get_primitive retry_env shifted_cell (1 / 100000) (- 1) \<lparr>heap = [True, False], trace = []\<rparr>
     = (Inl Null, world0)"
  by (simp add: prm_get_primitive_def get_primitive_def prm_alloc_primitive_def malloc_def
        world0_def)

lemma failed_third_alloc_run:
  "prm_get_primitive retry_env shifted_cell (1 / 100000) (- 1)
       \<lparr>heap = [True, True, False], trace = []\<rparr>
     = (Inl Null, world0)"
  by (simp add: prm_get_primitive_def get_primitive_def prm_alloc_primitive_def malloc_def
        world0_def shifted_cell_def Let_def)

text \<open>
  C4. \<open>prm_get_primitive\<close> returns either a record that is filled in full, or \<open>NULL\<close>.
  A returned record has the size of the input cell, the angle tolerance, the tolerance
  of one of the at most twenty attempts, at which \<open>sym_get_pure_translation\<close> found a
  translation list, the transform, and a cell with its mapping table: for a list of one
  member the cell comes from \<open>get_cell_with_smallest_lattice\<close> (it has the reduced
  lattice and the atom count of the input) and the table holds \<open>i\<close> at every index
  \<open>0 \<le> i < size\<close>; otherwise the cell and the table are what \<open>cel_trim_cell\<close> returned
  for the Delaunay-reduced lattice that \<open>get_primitive_lattice_vectors_iterative\<close>
  found. The record has not been freed, and on well-formed inputs its table has \<open>size\<close>
  entries.

  \<open>NULL\<close> is returned either because one of the allocation requests of
  \<open>prm_alloc_primitive\<close> failed (the record, its matrix, or for a positive size its
  mapping table: the first three requests, the first two for a size that is not
  positive), and then no call has been made; or after \<open>sym_get_pure_translation\<close> has
  been called in all twenty attempts, at the tolerances \<open>symprec * 0.95^k\<close>, and then
  the last call is \<open>prm_free_primitive\<close>. When none of these requests fails, the first
  call is \<open>sym_get_pure_translation\<close> at \<open>symprec\<close>. On well-formed inputs no array is
  indexed out of its bounds, so these are the only two results.
\<close>

theorem get_primitive_all_or_nothing:
  assumes "prm_get_primitive env cell symprec angle_tolerance w = (r, w')"
  shows "(case r of
            Inr p \<Rightarrow>
              size_prim p = size_cell cell
              \<and> angle_tolerance_prim p = angle_tolerance
              \<and> (\<exists>k<NUM_ATTEMPT. tolerance_prim p = symprec * REDUCE_RATE ^ k)
              \<and> (\<exists>c pure_trans.
                   cell_prim p = Some c
                   \<and> t_mat_prim p = mat_multiply_matrix_d3 (lattice c)
                                      (mat_inverse_matrix_d3 (lattice cell))
                   \<and> sym_get_pure_translation env cell (tolerance_prim p) = Some pure_trans
                   \<and> (if size_VecDBL pure_trans = 1
                      then (\<exists>wa wb. get_cell_with_smallest_lattice env cell (tolerance_prim p) wa
                                      = (Inr c, wb))
                           \<and> del_delaunay_reduce env (lattice cell) (tolerance_prim p)
                               = Some (lattice c)
                           \<and> size_cell c = size_cell cell
                           \<and> (\<forall>i. 0 \<le> i \<and> i < size_cell cell \<longrightarrow>
                                  mapping_table_prim p ! nat i = i)
                      else (\<exists>mt prim_lat multi smallest_lat wa wb.
                              get_primitive_lattice_vectors_iterative env cell pure_trans
                                  (tolerance_prim p) angle_tolerance wa
                                = (Inr (prim_lat, multi), wb)
                              \<and> multi \<noteq> 0
                              \<and> del_delaunay_reduce env prim_lat (tolerance_prim p)
                                  = Some smallest_lat
                              \<and> cel_trim_cell env mt smallest_lat cell (tolerance_prim p)
                                  = (mapping_table_prim p, Some c))))
              \<and> (well_formed_inputs env cell \<longrightarrow>
                   length (mapping_table_prim p) = nat (size_cell cell))
              \<and> (\<exists>evs. trace w' = trace w @ evs \<and> Call_prm_free_primitive \<notin> set evs)
          | Inl Null \<Rightarrow>
              (False \<in> set (take (if 0 < size_cell cell then 3 else 2) (heap w))
                 \<and> trace w' = trace w)
              \<or> (False \<notin> set (take (if 0 < size_cell cell then 3 else 2) (heap w))
                 \<and> (\<exists>evs. trace w' = trace w @ evs
                      \<and> pure_translation_tolerances evs
                          = map (\<lambda>k. symprec * REDUCE_RATE ^ k) [0..<NUM_ATTEMPT]
                      \<and> evs \<noteq> [] \<and> last evs = Call_prm_free_primitive))
          | Inl Undefined \<Rightarrow> \<not> well_formed_inputs env cell)
     \<and> (False \<in> set (take (if 0 < size_cell cell then 3 else 2) (heap w)) \<longrightarrow>
          r = Inl Null \<and> trace w' = trace w)
     \<and> (False \<notin> set (take (if 0 < size_cell cell then 3 else 2) (heap w)) \<longrightarrow>
          (\<exists>evs. trace w' = trace w @ Call_sym_get_pure_translation symprec # evs))
     \<and> (well_formed_inputs env cell \<longrightarrow> r \<noteq> Inl Undefined)"
proof -
  let ?failed = "False \<in> set (take (if 0 < size_cell cell then 3 else 2) (heap w))"
  from assms have g: "get_primitive env cell symprec angle_tolerance w = (r, w')"
    by (simp add: prm_get_primitive_def)
  note run = get_primitive_run[OF g]
  have alloc: "fst (prm_alloc_primitive (size_cell cell) w) = Inl Null \<longleftrightarrow> ?failed"
    unfolding prm_alloc_primitive_eq by simp
  have fourth: "well_formed_inputs env cell \<longrightarrow> r \<noteq> Inl Undefined"
    using get_primitive_defined[of env cell symprec angle_tolerance w] g by simp
  have second: "?failed \<longrightarrow> r = Inl Null \<and> trace w' = trace w"
    using get_primitive_not_started[OF g] by blast
  have third: "\<not> ?failed \<longrightarrow>
          (\<exists>evs. trace w' = trace w @ Call_sym_get_pure_translation symprec # evs)"
    using get_primitive_started[OF g] by blast
  have first: "case r of
            Inr p \<Rightarrow>
              size_prim p = size_cell cell
              \<and> angle_tolerance_prim p = angle_tolerance
              \<and> (\<exists>k<NUM_ATTEMPT. tolerance_prim p = symprec * REDUCE_RATE ^ k)
              \<and> (\<exists>c pure_trans.
                   cell_prim p = Some c
                   \<and> t_mat_prim p = mat_multiply_matrix_d3 (lattice c)
                                      (mat_inverse_matrix_d3 (lattice cell))
                   \<and> sym_get_pure_translation env cell (tolerance_prim p) = Some pure_trans
                   \<and> (if size_VecDBL pure_trans = 1
                      then (\<exists>wa wb. get_cell_with_smallest_lattice env cell (tolerance_prim p) wa
                                      = (Inr c, wb))
                           \<and> del_delaunay_reduce env (lattice cell) (tolerance_prim p)
                               = Some (lattice c)
                           \<and> size_cell c = size_cell cell
                           \<and> (\<forall>i. 0 \<le> i \<and> i < size_cell cell \<longrightarrow>
                                  mapping_table_prim p ! nat i = i)
                      else (\<exists>mt prim_lat multi smallest_lat wa wb.
                              get_primitive_lattice_vectors_iterative env cell pure_trans
                                  (tolerance_prim p) angle_tolerance wa
                                = (Inr (prim_lat, multi), wb)
                              \<and> multi \<noteq> 0
                              \<and> del_delaunay_reduce env prim_lat (tolerance_prim p)
                                  = Some smallest_lat
                              \<and> cel_trim_cell env mt smallest_lat cell (tolerance_prim p)
                                  = (mapping_table_prim p, Some c))))
              \<and> (well_formed_inputs env cell \<longrightarrow>
                   length (mapping_table_prim p) = nat (size_cell cell))
              \<and> (\<exists>evs. trace w' = trace w @ evs \<and> Call_prm_free_primitive \<notin> set evs)
          | Inl Null \<Rightarrow>
              (?failed \<and> trace w' = trace w)
              \<or> (\<not> ?failed
                 \<and> (\<exists>evs. trace w' = trace w @ evs
                      \<and> pure_translation_tolerances evs
                          = map (\<lambda>k. symprec * REDUCE_RATE ^ k) [0..<NUM_ATTEMPT]
                      \<and> evs \<noteq> [] \<and> last evs = Call_prm_free_primitive))
          | Inl Undefined \<Rightarrow> \<not> well_formed_inputs env cell"
  proof (cases r)
    case (Inr p)
    with second have nf: "\<not> ?failed" by auto
    from Inr run obtain evs where e: "trace w' = trace w @ evs"
      "geometric symprec (pure_translation_tolerances evs)"
      "length (pure_translation_tolerances evs) \<le> NUM_ATTEMPT"
      "pure_translation_tolerances evs \<noteq> []"
      "accepted_at env cell angle_tolerance (last (pure_translation_tolerances evs)) p"
      "Call_prm_free_primitive \<notin> set evs"
      by auto
    let ?ts = "pure_translation_tolerances evs"
    have tl: "tolerance_prim p = last ?ts" using e(5) unfolding accepted_at_def by simp
    have tp: "tolerance_prim p = symprec * REDUCE_RATE ^ (length ?ts - 1)"
      unfolding tl using geometric_last[OF e(2) e(4)] .
    have lt: "length ?ts - 1 < NUM_ATTEMPT" using e(3,4) by (cases ?ts) simp_all
    have k: "\<exists>k<NUM_ATTEMPT. tolerance_prim p = symprec * REDUCE_RATE ^ k"
      using tp lt by blast
    have a: "angle_tolerance_prim p = angle_tolerance"
      using e(5) unfolding accepted_at_def by simp
    from e(5)[unfolded accepted_at_def, folded tl] obtain c pure_trans where
      c: "cell_prim p = Some c"
         "t_mat_prim p = mat_multiply_matrix_d3 (lattice c) (mat_inverse_matrix_d3 (lattice cell))"
         "sym_get_pure_translation env cell (tolerance_prim p) = Some pure_trans"
      and br: "if size_VecDBL pure_trans = 1
         then size_cell c = size_cell cell \<and>
              (\<exists>wa wb. get_cell_with_smallest_lattice env cell (tolerance_prim p) wa = (Inr c, wb)) \<and>
              (\<forall>i. 0 \<le> i \<and> i < size_cell cell \<longrightarrow> mapping_table_prim p ! nat i = i)
         else (\<exists>mt wa wb. get_primitive_cell env mt cell pure_trans (tolerance_prim p)
                              angle_tolerance wa = ((mapping_table_prim p, Inr c), wb))"
      by blast
    have br': "if size_VecDBL pure_trans = 1
                      then (\<exists>wa wb. get_cell_with_smallest_lattice env cell (tolerance_prim p) wa
                                      = (Inr c, wb))
                           \<and> del_delaunay_reduce env (lattice cell) (tolerance_prim p)
                               = Some (lattice c)
                           \<and> size_cell c = size_cell cell
                           \<and> (\<forall>i. 0 \<le> i \<and> i < size_cell cell \<longrightarrow>
                                  mapping_table_prim p ! nat i = i)
                      else (\<exists>mt prim_lat multi smallest_lat wa wb.
                              get_primitive_lattice_vectors_iterative env cell pure_trans
                                  (tolerance_prim p) angle_tolerance wa
                                = (Inr (prim_lat, multi), wb)
                              \<and> multi \<noteq> 0
                              \<and> del_delaunay_reduce env prim_lat (tolerance_prim p)
                                  = Some smallest_lat
                              \<and> cel_trim_cell env mt smallest_lat cell (tolerance_prim p)
                                  = (mapping_table_prim p, Some c))"
    proof (cases "size_VecDBL pure_trans = 1")
      case True
      with br obtain wa wb where
        s: "get_cell_with_smallest_lattice env cell (tolerance_prim p) wa = (Inr c, wb)"
        by auto
      from get_cell_with_smallest_lattice_reduced[OF s] br True s show ?thesis by auto
    next
      case False
      with br obtain mt wa wb where
        "get_primitive_cell env mt cell pure_trans (tolerance_prim p) angle_tolerance wa
           = ((mapping_table_prim p, Inr c), wb)"
        by auto
      from get_primitive_cell_provenance[OF this] obtain prim_lat multi smallest_lat where
        pv: "get_primitive_lattice_vectors_iterative env cell pure_trans (tolerance_prim p)
               angle_tolerance wa = (Inr (prim_lat, multi), wb)"
            "multi \<noteq> 0"
            "del_delaunay_reduce env prim_lat (tolerance_prim p) = Some smallest_lat"
            "cel_trim_cell env mt smallest_lat cell (tolerance_prim p)
               = (mapping_table_prim p, Some c)"
        by blast
      have "\<exists>mt prim_lat multi smallest_lat wa wb.
                              get_primitive_lattice_vectors_iterative env cell pure_trans
                                  (tolerance_prim p) angle_tolerance wa
                                = (Inr (prim_lat, multi), wb)
                              \<and> multi \<noteq> 0
                              \<and> del_delaunay_reduce env prim_lat (tolerance_prim p)
                                  = Some smallest_lat
                              \<and> cel_trim_cell env mt smallest_lat cell (tolerance_prim p)
                                  = (mapping_table_prim p, Some c)"
        apply (rule exI[of _ mt])
        apply (rule exI[of _ prim_lat])
        apply (rule exI[of _ multi])
        apply (rule exI[of _ smallest_lat])
        apply (rule exI[of _ wa])
        apply (rule exI[of _ wb])
        using pv by (intro conjI)
      then show ?thesis unfolding if_not_P[OF False] .
    qed
    have cc: "\<exists>c pure_trans.
                   cell_prim p = Some c
                   \<and> t_mat_prim p = mat_multiply_matrix_d3 (lattice c)
                                      (mat_inverse_matrix_d3 (lattice cell))
                   \<and> sym_get_pure_translation env cell (tolerance_prim p) = Some pure_trans
                   \<and> (if size_VecDBL pure_trans = 1
                      then (\<exists>wa wb. get_cell_with_smallest_lattice env cell (tolerance_prim p) wa
                                      = (Inr c, wb))
                           \<and> del_delaunay_reduce env (lattice cell) (tolerance_prim p)
                               = Some (lattice c)
                           \<and> size_cell c = size_cell cell
                           \<and> (\<forall>i. 0 \<le> i \<and> i < size_cell cell \<longrightarrow>
                                  mapping_table_prim p ! nat i = i)
                      else (\<exists>mt prim_lat multi smallest_lat wa wb.
                              get_primitive_lattice_vectors_iterative env cell pure_trans
                                  (tolerance_prim p) angle_tolerance wa
                                = (Inr (prim_lat, multi), wb)
                              \<and> multi \<noteq> 0
                              \<and> del_delaunay_reduce env prim_lat (tolerance_prim p)
                                  = Some smallest_lat
                              \<and> cel_trim_cell env mt smallest_lat cell (tolerance_prim p)
                                  = (mapping_table_prim p, Some c)))"
      apply (rule exI[of _ c])
      apply (rule exI[of _ pure_trans])
      apply (intro conjI)
         apply (fact c(1))
        apply (fact c(2))
       apply (fact c(3))
      apply (fact br')
      done
    from get_primitive_started[OF g nf] Inr have
      sz: "size_prim p = size_cell cell"
      and len: "(\<forall>mapping_table lat tol.
                 length (fst (cel_trim_cell env mapping_table lat cell tol)) = length mapping_table)
               \<longrightarrow> length (mapping_table_prim p) = nat (size_cell cell)"
      by blast+
    have wl: "well_formed_inputs env cell \<longrightarrow>
                   length (mapping_table_prim p) = nat (size_cell cell)"
      using len unfolding well_formed_inputs_def by blast
    have t: "\<exists>evs. trace w' = trace w @ evs \<and> Call_prm_free_primitive \<notin> set evs"
      using e(1,6) by blast
    show ?thesis
      unfolding Inr sum.case
      apply (intro conjI)
           apply (fact sz)
          apply (fact a)
         apply (fact k)
        apply (fact cc)
       apply (fact wl)
      apply (fact t)
      done
  next
    case (Inl f)
    show ?thesis
    proof (cases f)
      case Undefined
      with Inl fourth show ?thesis by auto
    next
      case Null
      show ?thesis
      proof (cases ?failed)
        case True
        with second Inl Null show ?thesis by simp
      next
        case False
        with alloc have "fst (prm_alloc_primitive (size_cell cell) w) \<noteq> Inl Null" by simp
        with run Inl Null obtain evs where e: "trace w' = trace w @ evs"
          "geometric symprec (pure_translation_tolerances evs)"
          "length (pure_translation_tolerances evs) = NUM_ATTEMPT"
          "evs \<noteq> []" "last evs = Call_prm_free_primitive"
          by auto
        have "pure_translation_tolerances evs
                = map (\<lambda>k. symprec * REDUCE_RATE ^ k) [0..<NUM_ATTEMPT]"
          using e(2) unfolding geometric_def e(3) .
        with e False Inl Null show ?thesis by auto
      qed
    qed
  qed
  from first second third fourth show ?thesis by (intro conjI)
qed


theorem get_primitive_all_or_nothing_witness:
  "(\<exists>w' evs. prm_get_primitive never_env shifted_cell (1 / 100000) (- 1) world0 = (Inl Null, w')
      \<and> trace w' = evs
      \<and> pure_translation_tolerances evs
          = map (\<lambda>k. 1 / 100000 * REDUCE_RATE ^ k) [0..<NUM_ATTEMPT]
      \<and> length (pure_translation_tolerances evs) = 20
      \<and> last evs = Call_prm_free_primitive)
   \<and> prm_get_primitive retry_env shifted_cell (1 / 100000) (- 1) \<lparr>heap = [False], trace = []\<rparr>
       = (Inl Null, world0)
   \<and> prm_get_primitive retry_env shifted_cell (1 / 100000) (- 1)
         \<lparr>heap = [True, False], trace = []\<rparr>
       = (Inl Null, world0)
   \<and> prm_get_primitive retry_env shifted_cell (1 / 100000) (- 1)
         \<lparr>heap = [True, True, False], trace = []\<rparr>
       = (Inl Null, world0)
   \<and> trace world0 = trace \<lparr>heap = [False], trace = []\<rparr>
   \<and> trace world0 = trace \<lparr>heap = [True, False], trace = []\<rparr>
   \<and> trace world0 = trace \<lparr>heap = [True, True, False], trace = []\<rparr>
   \<and> prm_get_primitive retry_env shifted_cell (1 / 100000) (- 1) world0
       = (Inr retry_result, retry_world)
   \<and> well_formed_inputs retry_env shifted_cell
   \<and> size_prim retry_result = size_cell shifted_cell
   \<and> mapping_table_prim retry_result = [0]
   \<and> length (mapping_table_prim retry_result) = nat (size_cell shifted_cell)
   \<and> (\<exists>k<NUM_ATTEMPT. tolerance_prim retry_result = 1 / 100000 * REDUCE_RATE ^ k)
   \<and> (\<exists>evs. trace retry_world = trace world0 @ Call_sym_get_pure_translation (1 / 100000) # evs)
   \<and> prm_get_primitive trim_env noisy_cell (1 / 100000) (- 1) world0
       = (Inr trim_result, trim_world)
   \<and> well_formed_inputs trim_env noisy_cell
   \<and> size_prim trim_result = size_cell noisy_cell
   \<and> length (mapping_table_prim trim_result) = nat (size_cell noisy_cell)
   \<and> (\<exists>c pure_trans.
         cell_prim trim_result = Some c
         \<and> sym_get_pure_translation trim_env noisy_cell (tolerance_prim trim_result)
             = Some pure_trans
         \<and> size_VecDBL pure_trans = 2
         \<and> (\<exists>mt prim_lat multi smallest_lat wa wb.
               get_primitive_lattice_vectors_iterative trim_env noisy_cell pure_trans
                   (tolerance_prim trim_result) (- 1) wa
                 = (Inr (prim_lat, multi), wb)
               \<and> multi \<noteq> 0
               \<and> del_delaunay_reduce trim_env prim_lat (tolerance_prim trim_result)
                   = Some smallest_lat
               \<and> cel_trim_cell trim_env mt smallest_lat noisy_cell (tolerance_prim trim_result)
                   = (mapping_table_prim trim_result, Some c)))"
proof -
  have h0: "False \<notin> set (take (if 0 < size_cell shifted_cell then 3 else 2) (heap world0))"
    by (simp add: world0_def)
  from never_run obtain w' where
    r: "prm_get_primitive never_env shifted_cell (1 / 100000) (- 1) world0 = (Inl Null, w')"
    by (auto simp: prm_get_primitive_def)
  from get_primitive_all_or_nothing[OF r, THEN conjunct1] h0
  have "\<exists>evs. trace w' = trace world0 @ evs
                    \<and> pure_translation_tolerances evs
                          = map (\<lambda>k. 1 / 100000 * REDUCE_RATE ^ k) [0..<NUM_ATTEMPT]
                    \<and> evs \<noteq> [] \<and> last evs = Call_prm_free_primitive"
    by simp
  then obtain evs where e: "trace w' = evs"
     "pure_translation_tolerances evs = map (\<lambda>k. 1 / 100000 * REDUCE_RATE ^ k) [0..<NUM_ATTEMPT]"
     "last evs = Call_prm_free_primitive"
    by (auto simp: world0_def)
  have "length (pure_translation_tolerances evs) = 20"
    unfolding e(2) by (simp add: NUM_ATTEMPT_def)
  with r e have a: "\<exists>w' evs. prm_get_primitive never_env shifted_cell (1 / 100000) (- 1) world0
        = (Inl Null, w')
      \<and> trace w' = evs
      \<and> pure_translation_tolerances evs
          = map (\<lambda>k. 1 / 100000 * REDUCE_RATE ^ k) [0..<NUM_ATTEMPT]
      \<and> length (pure_translation_tolerances evs) = 20
      \<and> last evs = Call_prm_free_primitive"
    by blast
  have f1: "False \<in> set (take (if 0 < size_cell shifted_cell then 3 else 2)
                            (heap \<lparr>heap = [False], trace = []\<rparr>))"
    and f2: "False \<in> set (take (if 0 < size_cell shifted_cell then 3 else 2)
                            (heap \<lparr>heap = [True, False], trace = []\<rparr>))"
    and f3: "False \<in> set (take (if 0 < size_cell shifted_cell then 3 else 2)
                            (heap \<lparr>heap = [True, True, False], trace = []\<rparr>))"
    by (simp_all add: shifted_cell_def)
  have b1: "trace world0 = trace \<lparr>heap = [False], trace = []\<rparr>"
    using get_primitive_all_or_nothing[OF failed_alloc_run, THEN conjunct2, THEN conjunct1] f1
    by blast
  have b2: "trace world0 = trace \<lparr>heap = [True, False], trace = []\<rparr>"
    using get_primitive_all_or_nothing[OF failed_second_alloc_run, THEN conjunct2, THEN conjunct1]
      f2
    by blast
  have b3: "trace world0 = trace \<lparr>heap = [True, True, False], trace = []\<rparr>"
    using get_primitive_all_or_nothing[OF failed_third_alloc_run, THEN conjunct2, THEN conjunct1]
      f3
    by blast
  note retry = get_primitive_all_or_nothing[OF retry_prm_run]
  have c1: "size_prim retry_result = size_cell shifted_cell"
    using retry[THEN conjunct1] by simp
  have c2: "mapping_table_prim retry_result = [0]" by (simp add: retry_result_def)
  have c3: "length (mapping_table_prim retry_result) = nat (size_cell shifted_cell)"
    using retry[THEN conjunct1] retry_well_formed by simp
  have c4: "\<exists>k<NUM_ATTEMPT. tolerance_prim retry_result = 1 / 100000 * REDUCE_RATE ^ k"
    using retry[THEN conjunct1] by simp
  have c5: "\<exists>evs. trace retry_world
              = trace world0 @ Call_sym_get_pure_translation (1 / 100000) # evs"
    using retry[THEN conjunct2, THEN conjunct2, THEN conjunct1] h0 by blast
  note trim = get_primitive_all_or_nothing[OF trim_prm_run, THEN conjunct1, unfolded sum.case]
  have d1: "size_prim trim_result = size_cell noisy_cell"
    using trim by blast
  have d2: "length (mapping_table_prim trim_result) = nat (size_cell noisy_cell)"
    using trim trim_well_formed by blast
  have s2: "\<And>pure_trans. sym_get_pure_translation trim_env noisy_cell (tolerance_prim trim_result)
             = Some pure_trans \<Longrightarrow> size_VecDBL pure_trans = 2"
    by (simp add: trim_env_def noisy_pure_trans_def size_VecDBL_def)
  from trim obtain c pure_trans where
    d3: "cell_prim trim_result = Some c"
        "sym_get_pure_translation trim_env noisy_cell (tolerance_prim trim_result) = Some pure_trans"
    and d4: "if size_VecDBL pure_trans = 1
                      then (\<exists>wa wb. get_cell_with_smallest_lattice trim_env noisy_cell
                                (tolerance_prim trim_result) wa = (Inr c, wb))
                           \<and> del_delaunay_reduce trim_env (lattice noisy_cell)
                               (tolerance_prim trim_result) = Some (lattice c)
                           \<and> size_cell c = size_cell noisy_cell
                           \<and> (\<forall>i. 0 \<le> i \<and> i < size_cell noisy_cell \<longrightarrow>
                                  mapping_table_prim trim_result ! nat i = i)
                      else (\<exists>mt prim_lat multi smallest_lat wa wb.
                              get_primitive_lattice_vectors_iterative trim_env noisy_cell pure_trans
                                  (tolerance_prim trim_result) (- 1) wa
                                = (Inr (prim_lat, multi), wb)
                              \<and> multi \<noteq> 0
                              \<and> del_delaunay_reduce trim_env prim_lat (tolerance_prim trim_result)
                                  = Some smallest_lat
                              \<and> cel_trim_cell trim_env mt smallest_lat noisy_cell
                                  (tolerance_prim trim_result)
                                  = (mapping_table_prim trim_result, Some c))"
    by blast
  have two: "size_VecDBL pure_trans = 2" using s2[OF d3(2)] .
  then have ne: "size_VecDBL pure_trans \<noteq> 1" by simp
  note d5 = d4[unfolded if_not_P[OF ne]]
  have d: "\<exists>c pure_trans.
         cell_prim trim_result = Some c
         \<and> sym_get_pure_translation trim_env noisy_cell (tolerance_prim trim_result)
             = Some pure_trans
         \<and> size_VecDBL pure_trans = 2
         \<and> (\<exists>mt prim_lat multi smallest_lat wa wb.
               get_primitive_lattice_vectors_iterative trim_env noisy_cell pure_trans
                   (tolerance_prim trim_result) (- 1) wa
                 = (Inr (prim_lat, multi), wb)
               \<and> multi \<noteq> 0
               \<and> del_delaunay_reduce trim_env prim_lat (tolerance_prim trim_result)
                   = Some smallest_lat
               \<and> cel_trim_cell trim_env mt smallest_lat noisy_cell (tolerance_prim trim_result)
                   = (mapping_table_prim trim_result, Some c))"
    apply (rule exI[of _ c])
    apply (rule exI[of _ pure_trans])
    apply (intro conjI)
       apply (fact d3(1))
      apply (fact d3(2))
     apply (fact two)
    apply (fact d5)
    done
  show ?thesis
    apply (intro conjI)
                      apply (fact a)
                      apply (fact failed_alloc_run)
                      apply (fact failed_second_alloc_run)
                      apply (fact failed_third_alloc_run)
                      apply (fact b1)
                      apply (fact b2)
                     apply (fact b3)
                    apply (fact retry_prm_run)
                   apply (fact retry_well_formed)
                  apply (fact c1)
                 apply (fact c2)
                apply (fact c3)
               apply (fact c4)
              apply (fact c5)
             apply (fact trim_prm_run)
            apply (fact trim_well_formed)
           apply (fact d1)
          apply (fact d2)
         apply (fact d)
    done
qed


end
